theory Spec2Isabelle
  imports Complex_Main "HOL-Library.Sublist" "HOL-Library.Multiset"
begin

section \<open>Data model (types.ts)\<close>

text \<open>
  The interfaces of \<^verbatim>\<open>types.ts\<close>. An optional property (\<^verbatim>\<open>imageUrl?\<close>) is an
  \<open>option\<close>.

  \<^verbatim>\<open>analyzeAudio\<close> returns the parsed value under a cast (\<^verbatim>\<open>result as Storyboard\<close>)
  and checks nothing, so the value that flows through the program may lack properties
  the interface declares, and its scenes need not be what the interface says. The
  container properties of \<^verbatim>\<open>Storyboard\<close> and of its production design are therefore
  options (\<open>None\<close>: the property is absent, or \<^verbatim>\<open>null\<close>, which reads the same way
  wherever the program reads it), and so is the timestamp of a scene.

  The timestamp of a scene is \<open>Some t\<close> when it is the number \<open>t\<close>, and \<open>None\<close> when the
  property is absent or holds a value that a subtraction reads as NaN. A number that
  comes from JSON text is never NaN, and the only arithmetic done on timestamps is the
  sign of a difference and a comparison, which finite doubles decide as the reals do.
  (A literal too large for a double is read as an infinity, and a string or \<^verbatim>\<open>null\<close>
  in this place can read as a number; the model leaves those out.)

  The \<^verbatim>\<open>scenes\<close> of a parsed value are an array whose entries are objects or \<^verbatim>\<open>null\<close>
  (\<open>SceneArray\<close>, a \<^verbatim>\<open>null\<close> entry being \<open>None\<close>), or a value that is no array:
  \<open>NotArray False\<close> for the falsy ones (\<^verbatim>\<open>false\<close>, \<^verbatim>\<open>0\<close>, the empty string),
  \<open>NotArray True\<close> for the truthy ones (\<^verbatim>\<open>true\<close>, the other numbers, the other strings,
  an object), none of which has a method \<^verbatim>\<open>sort\<close>. The recurring elements and the other
  properties of a scene are taken as the interfaces type them.
\<close>

record VisualElement =
  name :: string
  el_description :: string
  el_imageUrl :: "string option"

record Scene =
  timestamp :: "real option"
  description :: string
  visual_prompt :: string
  timing_rationale :: string
  imageUrl :: "string option"

datatype AppState = IDLE | ANALYZING | DESIGNING_ELEMENTS | GENERATING_IMAGES | READY | ERROR

record ProductionDesign =
  art_style :: "string option"
  recurring_elements :: "VisualElement list option"

datatype scenes_value =
    NotArray bool
  | SceneArray "Scene option list"

record Storyboard =
  title :: "string option"
  production_design :: "ProductionDesign option"
  scenes :: "scenes_value option"

section \<open>Errors and the external service\<close>

text \<open>
  Every \<^verbatim>\<open>throw\<close> of the source is a value. \<open>GenerationFailed\<close> is the error built after
  the retry loop of \<^verbatim>\<open>generateImage\<close>; \<open>ServiceError\<close> is a rejection of the SDK call
  itself, with its message; \<open>TypeError\<close> is a property read on \<^verbatim>\<open>undefined\<close>, with the
  property read.
\<close>

datatype js_error =
    AnalysisFailed
  | NoCandidate
  | NoImageData
  | GenerationFailed
  | ServiceError string
  | TypeError string

fun message :: "js_error \<Rightarrow> string" where
  "message AnalysisFailed = ''Failed to interpret audio storyboard.''"
| "message NoCandidate = ''No output candidate.''"
| "message NoImageData = ''No image data in response.''"
| "message GenerationFailed = ''Generation failed.''"
| "message (ServiceError m) = m"
| "message (TypeError p) =
     ''Cannot read properties of undefined (reading '' @ [CHR 0x27] @ p @ [CHR 0x27] @ '')''"

text \<open>
  What the service answers to the analysis request, seen through
  \<^verbatim>\<open>JSON.parse(response.text || "{}")\<close>: the call rejects, or the text does not parse,
  or it is the text \<^verbatim>\<open>null\<close>, or it parses to another value. An absent or empty text
  parses to the empty object, which is \<open>Parsed\<close> of a storyboard with every property
  absent; so is a text that parses to a number, a string, a boolean or an array, none of
  which has any of the properties.
\<close>

datatype analysis_reply =
    CallFailed string
  | Unparseable
  | ParsedNull
  | Parsed Storyboard

text \<open>
  What the service answers to an image request: the call rejects, or it responds with
  its candidates (none when \<^verbatim>\<open>candidates\<close> is absent). A candidate is the list of its
  parts when \<^verbatim>\<open>content?.parts\<close> is there; a part is the \<^verbatim>\<open>data\<close> of its
  \<^verbatim>\<open>inlineData\<close> when it has one.
\<close>

type_synonym part = "string option"
type_synonym candidate = "part list option"

datatype image_reply =
    Rejected string
  | Responded "candidate list"

text \<open>The requests sent and the pauses taken, in order.\<close>

datatype event =
    AnalyzeRequest string string
  | ImageRequest "string list" string
  | Wait int

section \<open>Generation client (geminiService.ts)\<close>

subsection \<open>\<^verbatim>\<open>Array.prototype.sort\<close> with a comparator\<close>

text \<open>
  The comparator \<^verbatim>\<open>(a, b) => a.timestamp - b.timestamp\<close>. It throws when an entry is
  \<^verbatim>\<open>null\<close>; otherwise it gives the difference, which is NaN (here \<open>None\<close>) unless both
  timestamps are numbers.
\<close>

definition by_timestamp :: "Scene option \<Rightarrow> Scene option \<Rightarrow> js_error + real option" where
  "by_timestamp a b =
     (case a of
        None \<Rightarrow> Inl (TypeError ''timestamp'')
      | Some x \<Rightarrow>
          (case b of
             None \<Rightarrow> Inl (TypeError ''timestamp'')
           | Some y \<Rightarrow>
               Inr (case timestamp x of
                      None \<Rightarrow> None
                    | Some s \<Rightarrow> (case timestamp y of None \<Rightarrow> None | Some t \<Rightarrow> Some (s - t)))))"

text \<open>
  The built-in sort reads a comparator result that is NaN as zero. A comparator that
  gives NaN is not a consistent one, and the standard then leaves the resulting order
  to the engine; the model takes the order of the insertion sort below.
\<close>

definition sort_compare ::
  "('a \<Rightarrow> 'a \<Rightarrow> js_error + real option) \<Rightarrow> 'a \<Rightarrow> 'a \<Rightarrow> js_error + real" where
  "sort_compare cmp x y =
     (case cmp x y of
        Inl err \<Rightarrow> Inl err
      | Inr None \<Rightarrow> Inr 0
      | Inr (Some v) \<Rightarrow> Inr v)"

text \<open>
  The built-in sort is stable and orders by the sign of the comparator: an element
  goes before the first one it does not compare greater than. What the comparator
  throws, the sort throws.
\<close>

fun insert_by ::
  "('a \<Rightarrow> 'a \<Rightarrow> js_error + real option) \<Rightarrow> 'a \<Rightarrow> 'a list \<Rightarrow> js_error + 'a list" where
  "insert_by cmp x [] = Inr [x]"
| "insert_by cmp x (y # ys) =
     (case sort_compare cmp x y of
        Inl err \<Rightarrow> Inl err
      | Inr v \<Rightarrow>
          if v \<le> 0 then Inr (x # y # ys)
          else (case insert_by cmp x ys of
                  Inl err \<Rightarrow> Inl err
                | Inr zs \<Rightarrow> Inr (y # zs)))"

fun array_sort ::
  "('a \<Rightarrow> 'a \<Rightarrow> js_error + real option) \<Rightarrow> 'a list \<Rightarrow> js_error + 'a list" where
  "array_sort cmp [] = Inr []"
| "array_sort cmp (x # xs) =
     (case array_sort cmp xs of
        Inl err \<Rightarrow> Inl err
      | Inr ys \<Rightarrow> insert_by cmp x ys)"

subsection \<open>\<^verbatim>\<open>analyzeAudio\<close>\<close>

text \<open>
  One request is sent, outside the \<^verbatim>\<open>try\<close>: its rejection passes through as it is.
  Everything else is inside the \<^verbatim>\<open>try\<close>, and whatever is thrown there is caught and
  replaced by the analysis error: by \<^verbatim>\<open>JSON.parse\<close> on a text that does not parse, by
  the read of \<^verbatim>\<open>result.scenes\<close> when the text is \<^verbatim>\<open>null\<close>, by the call of \<^verbatim>\<open>sort\<close> on
  scenes that are truthy and no array, and by the comparator. A value whose scenes are
  falsy (absent, \<^verbatim>\<open>null\<close>, \<^verbatim>\<open>false\<close>, \<^verbatim>\<open>0\<close>, the empty string) is returned as it is; an
  array is truthy, also when empty.
\<close>

definition analyzeAudio ::
  "analysis_reply \<Rightarrow> string \<Rightarrow> string \<Rightarrow> event list \<times> (js_error + Storyboard)" where
  "analyzeAudio reply audioBase64 mimeType =
     ([AnalyzeRequest audioBase64 mimeType],
      (case reply of
         CallFailed m \<Rightarrow> Inl (ServiceError m)
       | Unparseable \<Rightarrow> Inl AnalysisFailed
       | ParsedNull \<Rightarrow> Inl AnalysisFailed
       | Parsed result \<Rightarrow>
           (case scenes result of
              None \<Rightarrow> Inr result
            | Some (NotArray b) \<Rightarrow> if b then Inl AnalysisFailed else Inr result
            | Some (SceneArray entries) \<Rightarrow>
                (case array_sort by_timestamp entries of
                   Inl err \<Rightarrow> Inl AnalysisFailed
                 | Inr sorted_entries \<Rightarrow>
                     Inr (result\<lparr>scenes := Some (SceneArray sorted_entries)\<rparr>)))))"

subsection \<open>\<^verbatim>\<open>generateImage\<close>\<close>

fun split_on :: "char \<Rightarrow> string \<Rightarrow> string list" where
  "split_on c [] = [[]]"
| "split_on c (x # xs) =
     (if x = c then [] # split_on c xs
      else (case split_on c xs of
              [] \<Rightarrow> [[x]]
            | p # ps \<Rightarrow> (x # p) # ps))"

text \<open>\<^verbatim>\<open>img.split(',')[1] || img\<close>: the second piece, unless it is absent or empty.\<close>

definition payload :: "string \<Rightarrow> string" where
  "payload img =
     (case split_on CHR '','' img of
        _ # p # _ \<Rightarrow> if p = [] then img else p
      | _ \<Rightarrow> img)"

text \<open>The first part that carries inline data, in the order of the parts.\<close>

fun first_inline :: "part list \<Rightarrow> string option" where
  "first_inline [] = None"
| "first_inline (None # ps) = first_inline ps"
| "first_inline (Some d # ps) = Some d"

text \<open>The body of the \<^verbatim>\<open>try\<close> block, given the reply to its request.\<close>

definition extract_image :: "image_reply \<Rightarrow> js_error + string" where
  "extract_image reply =
     (case reply of
        Rejected m \<Rightarrow> Inl (ServiceError m)
      | Responded [] \<Rightarrow> Inl NoCandidate
      | Responded (candidate # _) \<Rightarrow>
          (case first_inline (case candidate of None \<Rightarrow> [] | Some ps \<Rightarrow> ps) of
             None \<Rightarrow> Inl NoImageData
           | Some d \<Rightarrow> Inr (''data:image/png;base64,'' @ d)))"

text \<open>
  The retry loop, from the value \<open>attempt\<close> of its counter on. The replies of the
  service to the image requests still to come are a stream \<open>svc\<close>; each request takes
  the head. The counter takes whole values; \<open>retries\<close> is any finite number. (A budget
  of NaN or of minus infinity skips the loop as a negative one does; with a budget of
  plus infinity the loop has no last attempt. The model leaves these three out.)
\<close>

function attempts ::
  "string list \<Rightarrow> string \<Rightarrow> real \<Rightarrow> int \<Rightarrow> (nat \<Rightarrow> image_reply)
     \<Rightarrow> event list \<times> (js_error + string) \<times> (nat \<Rightarrow> image_reply)" where
  "attempts parts prompt retries attempt svc =
     (if of_int attempt \<le> retries then
        (case extract_image (svc 0) of
           Inr url \<Rightarrow> ([ImageRequest parts prompt], Inr url, svc \<circ> Suc)
         | Inl err \<Rightarrow>
             if of_int attempt = retries then ([ImageRequest parts prompt], Inl err, svc \<circ> Suc)
             else (case attempts parts prompt retries (attempt + 1) (svc \<circ> Suc) of
                     (evs, res, svc') \<Rightarrow>
                       (ImageRequest parts prompt # Wait (1500 * (attempt + 1)) # evs,
                        res, svc')))
      else ([], Inl GenerationFailed, svc))"
  by pat_completeness auto
termination
  by (relation "measure (\<lambda>(parts, prompt, retries, attempt, svc). nat (\<lfloor>retries\<rfloor> + 1 - attempt))")
     (auto simp: le_floor_iff)

definition generateImage ::
  "string \<Rightarrow> string list \<Rightarrow> real \<Rightarrow> (nat \<Rightarrow> image_reply)
     \<Rightarrow> event list \<times> (js_error + string) \<times> (nat \<Rightarrow> image_reply)" where
  "generateImage prompt referenceImages retries svc =
     attempts (map payload referenceImages) prompt retries 0 svc"

declare attempts.simps [simp del]

section \<open>Pipeline orchestrator (App.tsx)\<close>

subsection \<open>Component state\<close>

text \<open>
  A \<^verbatim>\<open>File\<close> as the component uses it: its name, its declared media type, the payload
  that \<^verbatim>\<open>FileReader.readAsDataURL\<close> yields after the comma, and the URL that
  \<^verbatim>\<open>URL.createObjectURL\<close> mints for it. The read of the file completes.
\<close>

record File =
  file_name :: string
  file_type :: string
  base64 :: string
  object_url :: string

text \<open>The seven \<^verbatim>\<open>useState\<close> cells of the component.\<close>

record App =
  state :: AppState
  audioFile :: "File option"
  audioUrl :: "string option"
  storyboard :: "Storyboard option"
  currentSceneIndex :: nat
  progress :: int
  error :: "string option"

text \<open>
  The behaviour of the service during the handling of one event: its reply to the
  analysis request, and its replies to the image requests in the order they are sent.
  The service settles every request.
\<close>

record Service =
  analysis :: analysis_reply
  images :: "nat \<Rightarrow> image_reply"

text \<open>
  The handling of one event threads a \<open>Run\<close>: the current component state, every
  state a subscriber has seen so far (oldest first, starting with the state before the
  event; one entry per call of a setter, taken at the moment of the call), the requests
  and pauses so far, and the service.
\<close>

record Run =
  app :: App
  published :: "App list"
  calls :: "event list"
  service :: Service

definition start :: "Service \<Rightarrow> App \<Rightarrow> Run" where
  "start svc a = \<lparr>app = a, published = [a], calls = [], service = svc\<rparr>"

definition commit :: "(App \<Rightarrow> App) \<Rightarrow> Run \<Rightarrow> Run" where
  "commit f r = r\<lparr>app := f (app r), published := published r @ [f (app r)]\<rparr>"

definition setState :: "AppState \<Rightarrow> Run \<Rightarrow> Run" where
  "setState s = commit (\<lambda>a. a\<lparr>state := s\<rparr>)"

definition setAudioFile :: "File option \<Rightarrow> Run \<Rightarrow> Run" where
  "setAudioFile f = commit (\<lambda>a. a\<lparr>audioFile := f\<rparr>)"

definition setAudioUrl :: "string option \<Rightarrow> Run \<Rightarrow> Run" where
  "setAudioUrl u = commit (\<lambda>a. a\<lparr>audioUrl := u\<rparr>)"

definition setStoryboard :: "(Storyboard option \<Rightarrow> Storyboard option) \<Rightarrow> Run \<Rightarrow> Run" where
  "setStoryboard upd = commit (\<lambda>a. a\<lparr>storyboard := upd (storyboard a)\<rparr>)"

definition setCurrentSceneIndex :: "nat \<Rightarrow> Run \<Rightarrow> Run" where
  "setCurrentSceneIndex i = commit (\<lambda>a. a\<lparr>currentSceneIndex := i\<rparr>)"

definition setProgress :: "int \<Rightarrow> Run \<Rightarrow> Run" where
  "setProgress p = commit (\<lambda>a. a\<lparr>progress := p\<rparr>)"

definition setError :: "string option \<Rightarrow> Run \<Rightarrow> Run" where
  "setError e = commit (\<lambda>a. a\<lparr>error := e\<rparr>)"

subsection \<open>\<^verbatim>\<open>handleFileUpload\<close> and \<^verbatim>\<open>reset\<close>\<close>

definition handleFileUpload :: "File option \<Rightarrow> Run \<Rightarrow> Run" where
  "handleFileUpload file r =
     (case file of
        None \<Rightarrow> r
      | Some f \<Rightarrow>
          if \<not> prefix ''audio/'' (file_type f)
          then setError (Some ''Please upload a valid audio file.'') r
          else setError None (setAudioUrl (Some (object_url f)) (setAudioFile (Some f) r)))"

definition reset :: "Run \<Rightarrow> Run" where
  "reset r =
     setError None (setProgress 0 (setCurrentSceneIndex 0 (setStoryboard (\<lambda>_. None)
       (setAudioUrl None (setAudioFile None (setState IDLE r))))))"

subsection \<open>\<^verbatim>\<open>processAudio\<close>\<close>

text \<open>
  \<^verbatim>\<open>Math.round(((i + 1) / n) * 100)\<close> in the arithmetic of doubles: the quotient is
  rounded to a double, its product with 100 is rounded to a double, and \<^verbatim>\<open>Math.round\<close>
  takes the nearest integer, a half going upwards.

  A positive double is \<open>m * 2 ^ s\<close> with a significand \<open>m\<close> of 53 bits, here the pair
  \<open>(m, s)\<close>. The double nearest to a quotient \<open>p / q\<close> of positive integers has the
  exponent \<open>s = E - 52\<close>, where \<open>2 ^ E \<le> p / q < 2 ^ (E + 1)\<close>, and the significand
  nearest to \<open>p / (q * 2 ^ s)\<close>, a tie going to the even one. The quotients and
  products met here lie far inside the range of normal doubles, and the operands
  \<open>i + 1\<close> and \<open>n\<close>, at most the length of an array, are doubles themselves.
\<close>

function bit_length :: "int \<Rightarrow> nat" where
  "bit_length p = (if p \<le> 0 then 0 else Suc (bit_length (p div 2)))"
  by pat_completeness auto
termination
  by (relation "measure nat") auto

declare bit_length.simps [simp del]

definition round_half_even :: "int \<Rightarrow> int \<Rightarrow> int" where
  "round_half_even p q =
     (if 2 * (p mod q) < q then p div q
      else if q < 2 * (p mod q) then p div q + 1
      else if even (p div q) then p div q
      else p div q + 1)"

definition binary_exponent :: "int \<Rightarrow> int \<Rightarrow> int" where
  "binary_exponent p q =
     (let e = int (bit_length p) - int (bit_length q)
      in if q * 2 ^ nat e \<le> p * 2 ^ nat (- e) then e else e - 1)"

definition nearest_double :: "int \<Rightarrow> int \<Rightarrow> int \<times> int" where
  "nearest_double p q =
     (let s = binary_exponent p q - 52
      in (round_half_even (p * 2 ^ nat (- s)) (q * 2 ^ nat s), s))"

text \<open>The product of a double and a whole number, as a double.\<close>

definition times_double :: "int \<times> int \<Rightarrow> int \<Rightarrow> int \<times> int" where
  "times_double d c = (case d of (m, s) \<Rightarrow> nearest_double (m * c * 2 ^ nat s) (2 ^ nat (- s)))"

text \<open>\<^verbatim>\<open>Math.round\<close> of a double: \<open>\<lfloor>m * 2 ^ s + 1 / 2\<rfloor>\<close>, in whole numbers.\<close>

definition js_round :: "int \<times> int \<Rightarrow> int" where
  "js_round d =
     (case d of (m, s) \<Rightarrow> (2 * m * 2 ^ nat s + 2 ^ nat (- s)) div (2 * 2 ^ nat (- s)))"

definition percent :: "nat \<Rightarrow> nat \<Rightarrow> int" where
  "percent k n = js_round (times_double (nearest_double (int k) (int n)) 100)"

text \<open>A template literal prints an absent value as \<^verbatim>\<open>undefined\<close>.\<close>

definition interpolate :: "string option \<Rightarrow> string" where
  "interpolate v = (case v of None \<Rightarrow> ''undefined'' | Some s \<Rightarrow> s)"

definition line_break :: string where
  "line_break = [CHR 0x0A] @ ''        ''"

definition elementPrompt :: "ProductionDesign \<Rightarrow> VisualElement \<Rightarrow> string" where
  "elementPrompt pd el =
     ''Production Design: Element Reference Sheet. '' @ line_break
     @ ''Style: '' @ interpolate (art_style pd) @ ''. '' @ line_break
     @ ''Subject: '' @ name el @ ''. '' @ line_break
     @ ''Description: '' @ el_description el @ ''. '' @ line_break
     @ ''Show only this subject against a neutral background for reference.''"

definition scenePrompt :: "ProductionDesign \<Rightarrow> Scene \<Rightarrow> string" where
  "scenePrompt pd scene =
     ''Using the provided visual references for character/element consistency and following the style ''
     @ [CHR 0x22] @ interpolate (art_style pd) @ [CHR 0x22]
     @ '', create this scene: '' @ visual_prompt scene
     @ ''. Maintain perfect visual coherence with the references.''"

text \<open>
  A call \<^verbatim>\<open>await geminiRef.current.generateImage(prompt, refs)\<close>, with the default of
  two retries: the requests and pauses are logged and the replies used are consumed.
\<close>

definition callGenerateImage :: "string \<Rightarrow> string list \<Rightarrow> Run \<Rightarrow> Run \<times> (js_error + string)" where
  "callGenerateImage prompt referenceImages r =
     (case generateImage prompt referenceImages 2 (images (service r)) of
        (evs, res, svc') \<Rightarrow>
          (r\<lparr>calls := calls r @ evs, service := (service r)\<lparr>images := svc'\<rparr>\<rparr>, res))"

text \<open>
  \<^verbatim>\<open>{ ...prev.production_design, recurring_elements: updatedElements }\<close>; spreading
  \<^verbatim>\<open>undefined\<close> adds nothing.
\<close>

definition with_elements :: "ProductionDesign option \<Rightarrow> VisualElement list \<Rightarrow> ProductionDesign" where
  "with_elements pd updatedElements =
     (case pd of
        None \<Rightarrow> \<lparr>art_style = None, recurring_elements = Some updatedElements\<rparr>
      | Some d \<Rightarrow> d\<lparr>recurring_elements := Some updatedElements\<rparr>)"

text \<open>
  Phase 2, the loop over the recurring elements from index \<open>i\<close> on. The result is the
  error thrown, or \<^verbatim>\<open>updatedElements\<close> at the end of the loop.
\<close>

function elementsLoop ::
  "ProductionDesign \<Rightarrow> VisualElement list \<Rightarrow> nat \<Rightarrow> VisualElement list \<Rightarrow> Run
     \<Rightarrow> Run \<times> (js_error + VisualElement list)" where
  "elementsLoop pd els i updatedElements r =
     (if i < length els then
        (case callGenerateImage (elementPrompt pd (els ! i)) []
                (setProgress (percent (i + 1) (length els)) r) of
           (r', Inl err) \<Rightarrow> (r', Inl err)
         | (r', Inr url) \<Rightarrow>
             elementsLoop pd els (i + 1)
               (updatedElements @ [(els ! i)\<lparr>el_imageUrl := Some url\<rparr>])
               (setStoryboard
                  (map_option (\<lambda>prev. prev\<lparr>production_design :=
                     Some (with_elements (production_design prev)
                             (updatedElements @ [(els ! i)\<lparr>el_imageUrl := Some url\<rparr>]))\<rparr>))
                  r'))
      else (r, Inr updatedElements))"
  by pat_completeness auto
termination
  by (relation "measure (\<lambda>(pd, els, i, updatedElements, r). length els - i)") auto

declare elementsLoop.simps [simp del]

text \<open>
  The loop header reads \<^verbatim>\<open>sb.production_design.recurring_elements.length\<close>, which throws
  when either property is absent.
\<close>

definition designElements :: "Storyboard \<Rightarrow> Run \<Rightarrow> Run \<times> (js_error + VisualElement list)" where
  "designElements sb r =
     (case production_design sb of
        None \<Rightarrow> (r, Inl (TypeError ''recurring_elements''))
      | Some pd \<Rightarrow>
          (case recurring_elements pd of
             None \<Rightarrow> (r, Inl (TypeError ''length''))
           | Some els \<Rightarrow> elementsLoop pd els 0 [] r))"

text \<open>\<^verbatim>\<open>updatedElements.map(e => e.imageUrl).filter(Boolean)\<close>\<close>

definition truthy :: "string option \<Rightarrow> bool" where
  "truthy v = (case v of None \<Rightarrow> False | Some s \<Rightarrow> s \<noteq> [])"

definition refImages :: "VisualElement list \<Rightarrow> string list" where
  "refImages updatedElements = map the (filter truthy (map el_imageUrl updatedElements))"

text \<open>
  Phase 3, the loop over the entries of the scenes from index \<open>i\<close> on. The prompt reads
  the art style and then \<^verbatim>\<open>scene.visual_prompt\<close>, which throws on a \<^verbatim>\<open>null\<close> entry.
\<close>

function scenesLoop ::
  "Storyboard \<Rightarrow> Scene option list \<Rightarrow> string list \<Rightarrow> nat \<Rightarrow> Scene list \<Rightarrow> Run
     \<Rightarrow> Run \<times> (js_error + Scene list)" where
  "scenesLoop sb ss refs i updatedScenes r =
     (if i < length ss then
        (case production_design sb of
           None \<Rightarrow> (setProgress (percent (i + 1) (length ss)) r, Inl (TypeError ''art_style''))
         | Some pd \<Rightarrow>
             (case ss ! i of
                None \<Rightarrow>
                  (setProgress (percent (i + 1) (length ss)) r, Inl (TypeError ''visual_prompt''))
              | Some scene \<Rightarrow>
                  (case callGenerateImage (scenePrompt pd scene) refs
                          (setProgress (percent (i + 1) (length ss)) r) of
                     (r', Inl err) \<Rightarrow> (r', Inl err)
                   | (r', Inr url) \<Rightarrow>
                       scenesLoop sb ss refs (i + 1)
                         (updatedScenes @ [scene\<lparr>imageUrl := Some url\<rparr>])
                         (setStoryboard
                            (map_option (\<lambda>prev. prev\<lparr>scenes :=
                               Some (SceneArray
                                 (map Some (updatedScenes @ [scene\<lparr>imageUrl := Some url\<rparr>])
                                  @ drop (i + 1) ss))\<rparr>))
                            r'))))
      else (r, Inr updatedScenes))"
  by pat_completeness auto
termination
  by (relation "measure (\<lambda>(sb, ss, refs, i, updatedScenes, r). length ss - i)") auto

declare scenesLoop.simps [simp del]

text \<open>
  \<^verbatim>\<open>total = sb.scenes.length\<close> throws when the scenes are absent; a value that is no
  array has no length, or the length zero, and the loop does not run.
\<close>

definition generateScenes ::
  "Storyboard \<Rightarrow> VisualElement list \<Rightarrow> Run \<Rightarrow> Run \<times> (js_error + Scene list)" where
  "generateScenes sb updatedElements r =
     (case scenes sb of
        None \<Rightarrow> (r, Inl (TypeError ''length''))
      | Some (NotArray b) \<Rightarrow> (r, Inr [])
      | Some (SceneArray ss) \<Rightarrow> scenesLoop sb ss (refImages updatedElements) 0 [] r)"

text \<open>The \<^verbatim>\<open>catch\<close> block: \<^verbatim>\<open>err.message || "An error occurred."\<close>, then the state.\<close>

definition catch_error :: "js_error \<Rightarrow> Run \<Rightarrow> Run" where
  "catch_error err r =
     setState ERROR
       (setError (Some (if message err = [] then ''An error occurred.'' else message err)) r)"

definition processAudio :: "Run \<Rightarrow> Run" where
  "processAudio r =
     (case audioFile (app r) of
        None \<Rightarrow> r
      | Some f \<Rightarrow>
          (case analyzeAudio (analysis (service r)) (base64 f) (file_type f) of
             (evs, res) \<Rightarrow>
               (let r1 = (setProgress 5 (setError None (setState ANALYZING r)))
                           \<lparr>calls := calls r @ evs\<rparr>
                in case res of
                     Inl err \<Rightarrow> catch_error err r1
                   | Inr sb \<Rightarrow>
                       (case designElements sb
                               (setState DESIGNING_ELEMENTS (setStoryboard (\<lambda>_. Some sb) r1)) of
                          (r2, Inl err) \<Rightarrow> catch_error err r2
                        | (r2, Inr updatedElements) \<Rightarrow>
                            (case generateScenes sb updatedElements
                                    (setState GENERATING_IMAGES r2) of
                               (r3, Inl err) \<Rightarrow> catch_error err r3
                             | (r3, Inr updatedScenes) \<Rightarrow> setState READY r3)))))"

subsection \<open>The events the rendered page offers\<close>

text \<open>
  \<^verbatim>\<open>onTimeUpdate\<close> of the audio element:
  \<^verbatim>\<open>storyboard.scenes.reduce((p, c, i) => time >= c.timestamp ? i : p, 0)\<close>, the
  reduction from the entry at index \<open>i\<close> on, with \<open>p\<close> so far. The callback throws on a
  \<^verbatim>\<open>null\<close> entry; a comparison with an absent timestamp is false.
\<close>

fun reduce_scenes :: "real \<Rightarrow> nat \<Rightarrow> nat \<Rightarrow> Scene option list \<Rightarrow> js_error + nat" where
  "reduce_scenes time p i [] = Inr p"
| "reduce_scenes time p i (None # cs) = Inl (TypeError ''timestamp'')"
| "reduce_scenes time p i (Some c # cs) =
     reduce_scenes time
       (case timestamp c of None \<Rightarrow> p | Some t \<Rightarrow> if time \<ge> t then i else p)
       (i + 1) cs"

text \<open>
  What is thrown (by the read of absent scenes, by the call of \<^verbatim>\<open>reduce\<close> on a value
  that is no array, by the callback) leaves the handler and the state as it is.
\<close>

definition onTimeUpdate :: "real \<Rightarrow> Run \<Rightarrow> Run" where
  "onTimeUpdate time r =
     (case storyboard (app r) of
        None \<Rightarrow> r
      | Some sb \<Rightarrow>
          (case scenes sb of
             None \<Rightarrow> r
           | Some (NotArray b) \<Rightarrow> r
           | Some (SceneArray ss) \<Rightarrow>
               (case reduce_scenes time 0 0 ss of
                  Inl err \<Rightarrow> r
                | Inr idx \<Rightarrow>
                    if idx \<noteq> currentSceneIndex (app r)
                    then setCurrentSceneIndex idx r
                    else r)))"

datatype ui_event =
    ChooseFile "File option"
  | ClickStart
  | ClickReset
  | TimeUpdate real

text \<open>
  The JSX renders the file input in \<^verbatim>\<open>IDLE\<close>, the start button in \<^verbatim>\<open>IDLE\<close> once a file
  is held, a reset button in \<^verbatim>\<open>ERROR\<close>, and a reset button and the audio element in
  \<^verbatim>\<open>READY\<close> when a storyboard is held. The three working states show the progress
  overlay only.
\<close>

fun enabled :: "App \<Rightarrow> ui_event \<Rightarrow> bool" where
  "enabled a (ChooseFile _) = (state a = IDLE)"
| "enabled a ClickStart = (state a = IDLE \<and> audioFile a \<noteq> None)"
| "enabled a ClickReset = (state a = ERROR \<or> (state a = READY \<and> storyboard a \<noteq> None))"
| "enabled a (TimeUpdate _) = (state a = READY \<and> storyboard a \<noteq> None)"

fun dispatch :: "ui_event \<Rightarrow> Run \<Rightarrow> Run" where
  "dispatch (ChooseFile file) r = handleFileUpload file r"
| "dispatch ClickStart r = processAudio r"
| "dispatch ClickReset r = reset r"
| "dispatch (TimeUpdate time) r = onTimeUpdate time r"

definition handle :: "Service \<Rightarrow> App \<Rightarrow> ui_event \<Rightarrow> Run" where
  "handle svc a ev = dispatch ev (start svc a)"

section \<open>Vocabulary of the properties\<close>

text \<open>
  The trace the retry contract describes: \<open>n\<close> attempts that are each followed by a
  pause, then a last attempt. The pause after the attempt numbered \<open>a + 1\<close> (counting
  from one) is \<open>1500 * (a + 1)\<close> milliseconds.
\<close>

fun backoff_schedule :: "string list \<Rightarrow> string \<Rightarrow> int \<Rightarrow> nat \<Rightarrow> event list" where
  "backoff_schedule parts prompt a 0 = [ImageRequest parts prompt]"
| "backoff_schedule parts prompt a (Suc n) =
     ImageRequest parts prompt # Wait (1500 * (a + 1)) # backoff_schedule parts prompt (a + 1) n"

fun is_request :: "event \<Rightarrow> bool" where
  "is_request (ImageRequest _ _) = True"
| "is_request (AnalyzeRequest _ _) = True"
| "is_request (Wait _) = False"

fun waits :: "event list \<Rightarrow> int list" where
  "waits [] = []"
| "waits (Wait ms # evs) = ms # waits evs"
| "waits (_ # evs) = waits evs"

text \<open>The timestamp an entry of the scenes carries as a number, if any.\<close>

definition entry_timestamp :: "Scene option \<Rightarrow> real option" where
  "entry_timestamp e = (case e of None \<Rightarrow> None | Some s \<Rightarrow> timestamp s)"

text \<open>
  A run is well-formed when the current state is the last one published. The path of a
  run is the sequence of pipeline states a subscriber sees, repetitions dropped.
\<close>

definition wf :: "Run \<Rightarrow> bool" where
  "wf r \<longleftrightarrow> published r \<noteq> [] \<and> last (published r) = app r"

definition path :: "Run \<Rightarrow> AppState list" where
  "path r = remdups_adj (map state (published r))"

definition steady :: "AppState list \<Rightarrow> Run \<Rightarrow> bool" where
  "steady p r \<longleftrightarrow> wf r \<and> path r = p"

text \<open>
  The recurring elements and the scenes of a storyboard, none where the property is
  absent, and those of the storyboard a component state holds. The image of the entry
  at a position is absent also when there is no such entry.
\<close>

definition elements_of :: "Storyboard \<Rightarrow> VisualElement list" where
  "elements_of sb =
     (case production_design sb of
        None \<Rightarrow> []
      | Some pd \<Rightarrow> (case recurring_elements pd of None \<Rightarrow> [] | Some els \<Rightarrow> els))"

definition scenes_of :: "Storyboard \<Rightarrow> Scene option list" where
  "scenes_of sb = (case scenes sb of Some (SceneArray ss) \<Rightarrow> ss | _ \<Rightarrow> [])"

definition stored_elements :: "App \<Rightarrow> VisualElement list" where
  "stored_elements a = (case storyboard a of None \<Rightarrow> [] | Some sb \<Rightarrow> elements_of sb)"

definition stored_scenes :: "App \<Rightarrow> Scene option list" where
  "stored_scenes a = (case storyboard a of None \<Rightarrow> [] | Some sb \<Rightarrow> scenes_of sb)"

definition element_image :: "App \<Rightarrow> nat \<Rightarrow> string option" where
  "element_image a k =
     (if k < length (stored_elements a) then el_imageUrl (stored_elements a ! k) else None)"

definition entry_image :: "Scene option \<Rightarrow> string option" where
  "entry_image e = (case e of None \<Rightarrow> None | Some s \<Rightarrow> imageUrl s)"

definition scene_image :: "App \<Rightarrow> nat \<Rightarrow> string option" where
  "scene_image a k =
     (if k < length (stored_scenes a) then entry_image (stored_scenes a ! k) else None)"

text \<open>
  A storyboard as the response schema describes it carries no image: the schema has no
  \<^verbatim>\<open>imageUrl\<close> property.
\<close>

definition image_free :: "Storyboard \<Rightarrow> bool" where
  "image_free sb \<longleftrightarrow>
     list_all (\<lambda>e. el_imageUrl e = None) (elements_of sb)
     \<and> list_all (\<lambda>e. entry_image e = None) (scenes_of sb)"

text \<open>The number of recurring elements of the stored storyboard that carry an image.\<close>

definition images_stored :: "App \<Rightarrow> nat" where
  "images_stored a = length (filter (\<lambda>e. el_imageUrl e \<noteq> None) (stored_elements a))"

text \<open>Every image of the first state is, at the same position, an image of the second.\<close>

definition keeps_images :: "App \<Rightarrow> App \<Rightarrow> bool" where
  "keeps_images a b \<longleftrightarrow>
     (\<forall>k u. element_image a k = Some u \<longrightarrow> element_image b k = Some u)
     \<and> (\<forall>k u. scene_image a k = Some u \<longrightarrow> scene_image b k = Some u)"

definition monotone_run :: "Run \<Rightarrow> bool" where
  "monotone_run r \<longleftrightarrow> wf r \<and> successively keeps_images (published r)"

text \<open>
  Loop invariants: the images stored are images of the entries the loop has built so
  far, at the same positions.
\<close>

definition elements_within :: "App \<Rightarrow> VisualElement list \<Rightarrow> bool" where
  "elements_within a upd \<longleftrightarrow>
     (\<forall>k u. element_image a k = Some u \<longrightarrow> k < length upd \<and> el_imageUrl (upd ! k) = Some u)"

definition scenes_within :: "App \<Rightarrow> Scene list \<Rightarrow> bool" where
  "scenes_within a upd \<longleftrightarrow>
     (\<forall>k u. scene_image a k = Some u \<longrightarrow> k < length upd \<and> imageUrl (upd ! k) = Some u)"


text \<open>The run as \<^verbatim>\<open>processAudio\<close> leaves it when Phase 1 and when Phase 2 begin.\<close>

definition analysing :: "event list \<Rightarrow> Run \<Rightarrow> Run" where
  "analysing evs r =
     (setProgress 5 (setError None (setState ANALYZING r)))\<lparr>calls := calls r @ evs\<rparr>"

definition designing :: "Storyboard \<Rightarrow> Run \<Rightarrow> Run" where
  "designing sb r = setState DESIGNING_ELEMENTS (setStoryboard (\<lambda>_. Some sb) r)"

text \<open>
  The component states that can be reached from the freshly mounted component by
  events the page offers, whatever the service answers.
\<close>

inductive reachable :: "App \<Rightarrow> bool" where
  mounted: "reachable \<lparr>state = IDLE, audioFile = None, audioUrl = None, storyboard = None,
                        currentSceneIndex = 0, progress = 0, error = None\<rparr>"
| handled: "reachable a \<Longrightarrow> enabled a ev \<Longrightarrow> reachable (app (handle svc a ev))"

section \<open>Example inputs\<close>

text \<open>The state of a freshly mounted component.\<close>

definition initial :: App where
  "initial = \<lparr>state = IDLE, audioFile = None, audioUrl = None, storyboard = None,
              currentSceneIndex = 0, progress = 0, error = None\<rparr>"

definition track :: File where
  "track = \<lparr>file_name = ''track.mp3'', file_type = ''audio/mpeg'', base64 = ''QUJD'',
            object_url = ''blob:track''\<rparr>"

definition picture :: File where
  "picture = \<lparr>file_name = ''cover.png'', file_type = ''image/png'', base64 = ''iVBO'',
              object_url = ''blob:cover''\<rparr>"

definition loaded :: App where
  "loaded = initial\<lparr>audioFile := Some track, audioUrl := Some ''blob:track''\<rparr>"

definition hero :: VisualElement where
  "hero = \<lparr>name = ''Hero'', el_description = ''...'', el_imageUrl = None\<rparr>"

definition villain :: VisualElement where
  "villain = \<lparr>name = ''Villain'', el_description = ''...'', el_imageUrl = None\<rparr>"

definition scene_at :: "real \<Rightarrow> Scene" where
  "scene_at t = \<lparr>timestamp = Some t, description = ''beat'', visual_prompt = ''a street'',
                 timing_rationale = ''downbeat'', imageUrl = None\<rparr>"

text \<open>A scene that came without its timestamp.\<close>

definition untimed :: Scene where
  "untimed = \<lparr>timestamp = None, description = ''beat'', visual_prompt = ''a street'',
              timing_rationale = ''downbeat'', imageUrl = None\<rparr>"

text \<open>The analysis response of the scenario: scenes at 5 and 0, in that order.\<close>

definition noir :: Storyboard where
  "noir = \<lparr>title = Some ''X'',
           production_design = Some \<lparr>art_style = Some ''noir'', recurring_elements = Some [hero]\<rparr>,
           scenes = Some (SceneArray [Some (scene_at 5), Some (scene_at 0)])\<rparr>"

definition duo :: Storyboard where
  "duo = \<lparr>title = Some ''X'',
          production_design =
            Some \<lparr>art_style = Some ''noir'', recurring_elements = Some [hero, villain]\<rparr>,
          scenes = Some (SceneArray [Some (scene_at 0)])\<rparr>"

text \<open>Scenes at 5 and 0 with an untimed one between them.\<close>

definition jumbled :: Storyboard where
  "jumbled = \<lparr>title = Some ''X'',
              production_design = Some \<lparr>art_style = Some ''noir'', recurring_elements = Some [hero]\<rparr>,
              scenes = Some (SceneArray [Some (scene_at 5), Some untimed, Some (scene_at 0)])\<rparr>"




definition image_of :: "string \<Rightarrow> image_reply" where
  "image_of d = Responded [Some [Some d]]"

definition obliging :: "Storyboard \<Rightarrow> Service" where
  "obliging sb = \<lparr>analysis = Parsed sb, images = (\<lambda>n. image_of ''AAAA'')\<rparr>"

definition barren :: "Storyboard \<Rightarrow> Service" where
  "barren sb = \<lparr>analysis = Parsed sb, images = (\<lambda>n. Responded [])\<rparr>"

text \<open>Image replies that fail twice and then carry an image.\<close>

definition flaky :: "nat \<Rightarrow> image_reply" where
  "flaky n = (if n < 2 then Responded [] else image_of ''AAAA'')"

section \<open>Generation client: properties\<close>

subsection \<open>Sorting of the scenes\<close>

lemma insert_by_mset: "insert_by cmp x ys = Inr zs \<Longrightarrow> mset zs = add_mset x (mset ys)"
  by (induction ys arbitrary: zs) (auto split: sum.splits if_splits)

lemma array_sort_mset: "array_sort cmp xs = Inr ys \<Longrightarrow> mset ys = mset xs"
  by (induction xs arbitrary: ys) (auto split: sum.splits dest: insert_by_mset)

text \<open>
  On entries that all carry a number the comparator never throws and never gives NaN,
  and the sort is the stable sort on that number.
\<close>

lemma compare_timed:
  assumes "entry_timestamp x = Some s" and "entry_timestamp y = Some t"
  shows "sort_compare by_timestamp x y = Inr (s - t)"
  using assms
  by (auto simp: sort_compare_def by_timestamp_def entry_timestamp_def split: option.splits)

lemma insert_by_timed:
  assumes "entry_timestamp x \<noteq> None" and "\<forall>y\<in>set ys. entry_timestamp y \<noteq> None"
  shows "insert_by by_timestamp x ys = Inr (insort_key (\<lambda>e. the (entry_timestamp e)) x ys)"
  using assms(2)
proof (induction ys)
  case Nil
  show ?case by simp
next
  case (Cons y ys)
  from assms(1) obtain s where s: "entry_timestamp x = Some s" by auto
  from Cons.prems obtain t where t: "entry_timestamp y = Some t" by auto
  from Cons have "insert_by by_timestamp x ys = Inr (insort_key (\<lambda>e. the (entry_timestamp e)) x ys)"
    by simp
  then show ?case by (simp add: compare_timed[OF s t] s t)
qed

lemma array_sort_timed:
  assumes "\<forall>x\<in>set xs. entry_timestamp x \<noteq> None"
  shows "array_sort by_timestamp xs = Inr (sort_key (\<lambda>e. the (entry_timestamp e)) xs)"
  using assms
proof (induction xs)
  case Nil
  show ?case by simp
next
  case (Cons x xs)
  then have "array_sort by_timestamp xs = Inr (sort_key (\<lambda>e. the (entry_timestamp e)) xs)"
    by simp
  moreover have "insert_by by_timestamp x (sort_key (\<lambda>e. the (entry_timestamp e)) xs)
        = Inr (insort_key (\<lambda>e. the (entry_timestamp e)) x (sort_key (\<lambda>e. the (entry_timestamp e)) xs))"
    using Cons.prems by (intro insert_by_timed) auto
  ultimately show ?case by simp
qed

lemma sorted_nth_le:
  assumes "sorted (map f xs)" and "i < j" and "j < length xs"
  shows "f (xs ! i) \<le> f (xs ! j)"
  using assms sorted_nth_mono[of "map f xs" i j] by simp

text \<open>
  C1, as the claim states it, fails: a response whose scenes are at 5, without a
  timestamp, and at 0 is accepted and comes back in this order, 5 before 0. Against the
  untimed scene either neighbour compares as NaN, which the sort reads as equal.
\<close>

theorem C1_counterexample:
  "analyzeAudio (Parsed jumbled) ''QUJD'' ''audio/mpeg''
     = ([AnalyzeRequest ''QUJD'' ''audio/mpeg''], Inr jumbled)
   \<and> scenes jumbled = Some (SceneArray [Some (scene_at 5), Some untimed, Some (scene_at 0)])
   \<and> entry_timestamp (Some (scene_at 5)) = Some 5
   \<and> entry_timestamp (Some (scene_at 0)) = Some 0
   \<and> \<not> (5 :: real) \<le> 0"
  by (simp add: analyzeAudio_def jumbled_def by_timestamp_def sort_compare_def scene_at_def
        untimed_def entry_timestamp_def)

text \<open>
  C1, amended. Whenever \<^verbatim>\<open>analyzeAudio\<close> returns a storyboard whose scenes all carry a
  number as their timestamp, the scenes are in ascending order of timestamp, and they
  are the scenes the service sent, rearranged.
\<close>

theorem C1_timed_scenes_sorted:
  assumes "analyzeAudio reply audioBase64 mimeType = (evs, Inr sb)"
    and "scenes sb = Some (SceneArray ss)"
    and "\<forall>e\<in>set ss. entry_timestamp e \<noteq> None"
  shows "(\<forall>i j. i < j \<and> j < length ss \<longrightarrow>
            (\<exists>t u. entry_timestamp (ss ! i) = Some t \<and> entry_timestamp (ss ! j) = Some u
                   \<and> t \<le> u))
       \<and> (\<exists>result received. reply = Parsed result
            \<and> scenes result = Some (SceneArray received) \<and> mset ss = mset received)"
proof -
  let ?key = "\<lambda>e. the (entry_timestamp e)"
  from assms(1) obtain result where r: "reply = Parsed result"
    by (cases reply) (auto simp: analyzeAudio_def)
  with assms(1,2) obtain received where s: "scenes result = Some (SceneArray received)"
    and sorted: "array_sort by_timestamp received = Inr ss"
    by (auto simp: analyzeAudio_def split: option.splits scenes_value.splits sum.splits if_splits)
  from sorted have m: "mset ss = mset received" by (rule array_sort_mset)
  then have "set received = set ss" by (metis set_mset_mset)
  with assms(3) have "\<forall>e\<in>set received. entry_timestamp e \<noteq> None" by simp
  then have "array_sort by_timestamp received = Inr (sort_key ?key received)"
    by (rule array_sort_timed)
  with sorted have "ss = sort_key ?key received" by simp
  then have ord: "sorted (map ?key ss)" by simp
  have "\<exists>t u. entry_timestamp (ss ! i) = Some t \<and> entry_timestamp (ss ! j) = Some u \<and> t \<le> u"
    if "i < j" "j < length ss" for i j
  proof -
    from that assms(3) obtain t u
      where t: "entry_timestamp (ss ! i) = Some t" and u: "entry_timestamp (ss ! j) = Some u"
      by (metis less_trans nth_mem not_None_eq)
    from sorted_nth_le[OF ord that] t u have "t \<le> u" by simp
    with t u show ?thesis by simp
  qed
  with r s m show ?thesis by blast
qed

text \<open>The scenario: scenes received at 5 and 0 are returned at 0 and 5.\<close>

theorem C1_timed_scenes_sorted_witness:
  "analyzeAudio (Parsed noir) ''QUJD'' ''audio/mpeg''
     = ([AnalyzeRequest ''QUJD'' ''audio/mpeg''],
        Inr (noir\<lparr>scenes := Some (SceneArray [Some (scene_at 0), Some (scene_at 5)])\<rparr>))
   \<and> entry_timestamp ([Some (scene_at 0), Some (scene_at 5)] ! 0) = Some 0
   \<and> entry_timestamp ([Some (scene_at 0), Some (scene_at 5)] ! 1) = Some 5
   \<and> (0 :: real) \<le> 5
   \<and> mset [Some (scene_at 0), Some (scene_at 5)] = mset [Some (scene_at 5), Some (scene_at 0)]"
proof -
  let ?ss = "[Some (scene_at 0), Some (scene_at 5)]"
  have run: "analyzeAudio (Parsed noir) ''QUJD'' ''audio/mpeg''
     = ([AnalyzeRequest ''QUJD'' ''audio/mpeg''], Inr (noir\<lparr>scenes := Some (SceneArray ?ss)\<rparr>))"
    by (simp add: analyzeAudio_def noir_def by_timestamp_def sort_compare_def scene_at_def)
  have stored: "scenes (noir\<lparr>scenes := Some (SceneArray ?ss)\<rparr>) = Some (SceneArray ?ss)"
    by simp
  have timed: "\<forall>e\<in>set ?ss. entry_timestamp e \<noteq> None"
    by (simp add: entry_timestamp_def scene_at_def)
  from C1_timed_scenes_sorted[OF run stored timed] run show ?thesis
    by (auto simp: noir_def entry_timestamp_def scene_at_def)
qed

subsection \<open>Shape of the analysis response\<close>








subsection \<open>The retry loop\<close>

lemma extract_image_not_generic: "extract_image reply \<noteq> Inl GenerationFailed"
  by (auto simp: extract_image_def split: image_reply.splits list.splits option.splits)

lemma requests_backoff_schedule:
  "length (filter is_request (backoff_schedule parts prompt a n)) = Suc n"
  by (induction n arbitrary: a) simp_all

lemma waits_backoff_schedule:
  "waits (backoff_schedule parts prompt a n) = map (\<lambda>j. 1500 * (a + int j + 1)) [0..<n]"
proof (induction n arbitrary: a)
  case 0
  show ?case by simp
next
  case (Suc n)
  have "map (\<lambda>j. 1500 * (a + int j + 1)) [0..<Suc n]
        = (1500 * (a + 1)) # map (\<lambda>j. 1500 * (a + 1 + int j + 1)) [0..<n]"
    by (simp add: upt_conv_Cons map_Suc_upt[symmetric] del: upt_Suc)
  then show ?case using Suc.IH[of "a + 1"] by simp
qed

text \<open>\<open>k\<close> failures and then a success, within the budget: the success is returned.\<close>

lemma attempts_success:
  assumes "\<forall>j<k. isl (extract_image (svc j))"
    and "extract_image (svc k) = Inr v"
    and "of_int (a + int k) \<le> retries"
  shows "attempts parts prompt retries a svc
         = (backoff_schedule parts prompt a k, Inr v, (\<lambda>n. svc (n + Suc k)))"
  using assms
proof (induction k arbitrary: a svc)
  case 0
  then show ?case by (subst attempts.simps) (simp add: comp_def)
next
  case (Suc k)
  from Suc.prems(1) obtain e where e: "extract_image (svc 0) = Inl e"
    by (cases "extract_image (svc 0)") auto
  have "attempts parts prompt retries (a + 1) (svc \<circ> Suc)
        = (backoff_schedule parts prompt (a + 1) k, Inr v, (\<lambda>n. (svc \<circ> Suc) (n + Suc k)))"
    using Suc.prems by (intro Suc.IH) (auto simp: algebra_simps)
  moreover from Suc.prems(3) have "of_int a < retries" by simp
  ultimately show ?case using e by (subst attempts.simps) simp
qed

text \<open>Failures up to the last attempt of a whole budget: the last error is rethrown.\<close>

lemma attempts_exhausted:
  assumes "\<forall>j\<le>k. isl (extract_image (svc j))"
    and "of_int (a + int k) = retries"
  shows "attempts parts prompt retries a svc
         = (backoff_schedule parts prompt a k, extract_image (svc k), (\<lambda>n. svc (n + Suc k)))"
  using assms
proof (induction k arbitrary: a svc)
  case 0
  then obtain e where e: "extract_image (svc 0) = Inl e"
    by (cases "extract_image (svc 0)") auto
  with 0 show ?case by (subst attempts.simps) (auto simp: comp_def)
next
  case (Suc k)
  from Suc.prems(1) obtain e where e: "extract_image (svc 0) = Inl e"
    by (cases "extract_image (svc 0)") auto
  have "attempts parts prompt retries (a + 1) (svc \<circ> Suc)
        = (backoff_schedule parts prompt (a + 1) k, extract_image ((svc \<circ> Suc) k),
           (\<lambda>n. (svc \<circ> Suc) (n + Suc k)))"
    using Suc.prems by (intro Suc.IH) (auto simp: algebra_simps)
  moreover from Suc.prems(2) have "of_int a < retries" by auto
  ultimately show ?case using e by (subst attempts.simps) simp
qed

text \<open>
  Every run of the loop that starts within a whole budget ends at some attempt \<open>k\<close>
  with the outcome of that attempt: a success, or the failure of the last attempt
  allowed.
\<close>

lemma attempts_outcome:
  assumes "a \<le> m"
  shows "\<exists>k. a + int k \<le> m
       \<and> attempts parts prompt (of_int m) a svc
           = (backoff_schedule parts prompt a k, extract_image (svc k), (\<lambda>n. svc (n + Suc k)))
       \<and> (\<forall>j<k. isl (extract_image (svc j)))
       \<and> (isl (extract_image (svc k)) \<longrightarrow> a + int k = m)"
proof (cases "\<forall>j \<le> nat (m - a). isl (extract_image (svc j))")
  case True
  have eq: "a + int (nat (m - a)) = m" using assms by simp
  then have "of_int (a + int (nat (m - a))) = (of_int m :: real)" by simp
  with True have "attempts parts prompt (of_int m) a svc
        = (backoff_schedule parts prompt a (nat (m - a)),
           extract_image (svc (nat (m - a))), (\<lambda>n. svc (n + Suc (nat (m - a)))))"
    by (rule attempts_exhausted)
  with True eq show ?thesis by (intro exI[of _ "nat (m - a)"]) auto
next
  case False
  define k where "k = (LEAST j. \<not> isl (extract_image (svc j)))"
  from False obtain j0 where j0: "j0 \<le> nat (m - a)" "\<not> isl (extract_image (svc j0))"
    by auto
  have k: "\<not> isl (extract_image (svc k))" unfolding k_def using j0(2) by (rule LeastI)
  have kle: "k \<le> j0" unfolding k_def using j0(2) by (rule Least_le)
  have before: "\<forall>j<k. isl (extract_image (svc j))"
    unfolding k_def using not_less_Least by blast
  from k obtain v where v: "extract_image (svc k) = Inr v"
    by (cases "extract_image (svc k)") auto
  have le: "a + int k \<le> m" using kle j0(1) assms by linarith
  then have "of_int (a + int k) \<le> (of_int m :: real)" by (simp only: of_int_le_iff)
  with before v have "attempts parts prompt (of_int m) a svc
        = (backoff_schedule parts prompt a k, Inr v, (\<lambda>n. svc (n + Suc k)))"
    by (rule attempts_success)
  with before v le show ?thesis by (intro exI[of _ k]) auto
qed

text \<open>With a negative budget the loop body never runs.\<close>

lemma generateImage_negative_retries:
  "retries < 0 \<Longrightarrow> generateImage prompt referenceImages retries svc = ([], Inl GenerationFailed, svc)"
  unfolding generateImage_def by (subst attempts.simps) simp

text \<open>
  With a budget that is no whole number the counter never equals it: when every
  attempt within the budget fails, none of the errors is rethrown, each failure is
  followed by a pause, and the loop is left by its condition.
\<close>

lemma attempts_overrun:
  assumes "\<forall>j\<le>k. isl (extract_image (svc j))"
    and "of_int (a + int k) < retries" and "retries < of_int (a + int k) + 1"
  shows "fst (snd (attempts parts prompt retries a svc)) = Inl GenerationFailed
       \<and> length (filter is_request (fst (attempts parts prompt retries a svc))) = Suc k
       \<and> waits (fst (attempts parts prompt retries a svc))
           = map (\<lambda>j. 1500 * (a + int j + 1)) [0..<Suc k]"
  using assms
proof (induction k arbitrary: a svc)
  case 0
  then obtain e where e: "extract_image (svc 0) = Inl e"
    by (cases "extract_image (svc 0)") auto
  from 0 have "\<not> of_int (a + 1) \<le> retries" by simp
  then have "attempts parts prompt retries (a + 1) (svc \<circ> Suc) = ([], Inl GenerationFailed, svc \<circ> Suc)"
    by (subst attempts.simps) simp
  with e 0 show ?case by (subst (1 2 3) attempts.simps) simp
next
  case (Suc k)
  from Suc.prems(1) obtain e where e: "extract_image (svc 0) = Inl e"
    by (cases "extract_image (svc 0)") auto
  let ?rest = "attempts parts prompt retries (a + 1) (svc \<circ> Suc)"
  have ih: "fst (snd ?rest) = Inl GenerationFailed
       \<and> length (filter is_request (fst ?rest)) = Suc k
       \<and> waits (fst ?rest) = map (\<lambda>j. 1500 * (a + 1 + int j + 1)) [0..<Suc k]"
    using Suc.prems by (intro Suc.IH) (auto simp: algebra_simps)
  have shift: "map (\<lambda>j. 1500 * (a + int j + 1)) [0..<Suc (Suc k)]
        = (1500 * (a + 1)) # map (\<lambda>j. 1500 * (a + 1 + int j + 1)) [0..<Suc k]"
    by (simp add: upt_conv_Cons map_Suc_upt[symmetric] del: upt_Suc)
  from Suc.prems(2) have lt: "of_int a < retries" by simp
  obtain evs res svc' where rest: "?rest = (evs, res, svc')" by (cases ?rest) auto
  with lt e have "attempts parts prompt retries a svc
      = (ImageRequest parts prompt # Wait (1500 * (a + 1)) # evs, res, svc')"
    by (subst attempts.simps) simp
  with ih rest shift show ?case by simp
qed

text \<open>
  C2. With a whole \<open>maxRetries \<ge> 0\<close>: if the first \<open>k \<le> maxRetries\<close> attempts fail and
  the next succeeds, the call returns that success after \<open>k + 1\<close> requests; if the first
  \<open>maxRetries + 1\<close> attempts fail, the call makes exactly \<open>maxRetries + 1\<close> requests and
  rethrows the error of the last one. In both cases the pause after the attempt
  numbered \<open>j + 1\<close> is \<open>1500 * (j + 1)\<close> milliseconds, each pause between two requests.
\<close>

theorem C2_retry_contract:
  assumes "0 \<le> maxRetries"
  shows "(\<forall>k v. int k \<le> maxRetries \<and> (\<forall>j<k. isl (extract_image (svc j)))
              \<and> extract_image (svc k) = Inr v \<longrightarrow>
            (\<exists>evs rest. generateImage prompt referenceImages (of_int maxRetries) svc
                            = (evs, Inr v, rest)
               \<and> evs = backoff_schedule (map payload referenceImages) prompt 0 k
               \<and> length (filter is_request evs) = k + 1
               \<and> waits evs = map (\<lambda>j. 1500 * (int j + 1)) [0..<k]))
       \<and> ((\<forall>j \<le> nat maxRetries. isl (extract_image (svc j))) \<longrightarrow>
            (\<exists>evs rest. generateImage prompt referenceImages (of_int maxRetries) svc
                            = (evs, extract_image (svc (nat maxRetries)), rest)
               \<and> evs = backoff_schedule (map payload referenceImages) prompt 0 (nat maxRetries)
               \<and> length (filter is_request evs) = nat maxRetries + 1
               \<and> waits evs = map (\<lambda>j. 1500 * (int j + 1)) [0..<nat maxRetries]))"
proof (intro conjI allI impI)
  fix k v
  assume h: "int k \<le> maxRetries \<and> (\<forall>j<k. isl (extract_image (svc j)))
              \<and> extract_image (svc k) = Inr v"
  then have "of_int (0 + int k) \<le> (of_int maxRetries :: real)" by simp
  with h have "attempts (map payload referenceImages) prompt (of_int maxRetries) 0 svc
        = (backoff_schedule (map payload referenceImages) prompt 0 k, Inr v, (\<lambda>n. svc (n + Suc k)))"
    by (intro attempts_success) auto
  then show "\<exists>evs rest. generateImage prompt referenceImages (of_int maxRetries) svc
                            = (evs, Inr v, rest)
               \<and> evs = backoff_schedule (map payload referenceImages) prompt 0 k
               \<and> length (filter is_request evs) = k + 1
               \<and> waits evs = map (\<lambda>j. 1500 * (int j + 1)) [0..<k]"
    by (simp add: generateImage_def requests_backoff_schedule waits_backoff_schedule)
next
  assume h: "\<forall>j \<le> nat maxRetries. isl (extract_image (svc j))"
  have "of_int (0 + int (nat maxRetries)) = (of_int maxRetries :: real)" using assms by simp
  with h have "attempts (map payload referenceImages) prompt (of_int maxRetries) 0 svc
        = (backoff_schedule (map payload referenceImages) prompt 0 (nat maxRetries),
           extract_image (svc (nat maxRetries)), (\<lambda>n. svc (n + Suc (nat maxRetries))))"
    by (rule attempts_exhausted)
  then show "\<exists>evs rest. generateImage prompt referenceImages (of_int maxRetries) svc
                            = (evs, extract_image (svc (nat maxRetries)), rest)
               \<and> evs = backoff_schedule (map payload referenceImages) prompt 0 (nat maxRetries)
               \<and> length (filter is_request evs) = nat maxRetries + 1
               \<and> waits evs = map (\<lambda>j. 1500 * (int j + 1)) [0..<nat maxRetries]"
    by (simp add: generateImage_def requests_backoff_schedule waits_backoff_schedule)
qed

text \<open>
  With the default budget of two: two failures and then an image give the image after
  pauses of 1500 and 3000; three failures give the third error after three requests.
\<close>

theorem C2_retry_contract_witness:
  "(0::int) \<le> 2
   \<and> fst (snd (generateImage ''p'' [] 2 flaky)) = Inr ''data:image/png;base64,AAAA''
   \<and> fst (generateImage ''p'' [] 2 flaky)
       = [ImageRequest [] ''p'', Wait 1500, ImageRequest [] ''p'', Wait 3000, ImageRequest [] ''p'']
   \<and> fst (snd (generateImage ''p'' [] 2 (\<lambda>n. Responded []))) = Inl NoCandidate
   \<and> fst (generateImage ''p'' [] 2 (\<lambda>n. Responded []))
       = [ImageRequest [] ''p'', Wait 1500, ImageRequest [] ''p'', Wait 3000, ImageRequest [] ''p'']
   \<and> length (filter is_request (fst (generateImage ''p'' [] 2 (\<lambda>n. Responded [])))) = 3"
proof -
  have budget: "(0::int) \<le> 2" by simp
  have two: "backoff_schedule [] ''p'' 0 2
      = [ImageRequest [] ''p'', Wait 1500, ImageRequest [] ''p'', Wait 3000, ImageRequest [] ''p'']"
    by (simp add: numeral_2_eq_2)
  have ok: "int 2 \<le> 2 \<and> (\<forall>j<2. isl (extract_image (flaky j)))
             \<and> extract_image (flaky 2) = Inr ''data:image/png;base64,AAAA''"
    by (simp add: flaky_def extract_image_def image_of_def)
  have bad: "\<forall>j \<le> nat 2. isl (extract_image ((\<lambda>n. Responded []) j))"
    by (simp add: extract_image_def)
  from C2_retry_contract[OF budget, of flaky "''p''" "[]", THEN conjunct1,
      THEN spec[of _ 2], THEN spec[of _ "''data:image/png;base64,AAAA''"], THEN mp, OF ok]
  have a: "fst (snd (generateImage ''p'' [] 2 flaky)) = Inr ''data:image/png;base64,AAAA''
         \<and> fst (generateImage ''p'' [] 2 flaky) = backoff_schedule [] ''p'' 0 2"
    by auto
  from C2_retry_contract[OF budget, of "\<lambda>n. Responded []" "''p''" "[]", THEN conjunct2,
      THEN mp, OF bad]
  have b: "fst (snd (generateImage ''p'' [] 2 (\<lambda>n. Responded []))) = Inl NoCandidate
         \<and> fst (generateImage ''p'' [] 2 (\<lambda>n. Responded [])) = backoff_schedule [] ''p'' 0 2
         \<and> length (filter is_request (fst (generateImage ''p'' [] 2 (\<lambda>n. Responded [])))) = 3"
    by (auto simp: extract_image_def)
  from a b two show ?thesis by simp
qed

text \<open>
  C10, as the claim states it, fails: \<^verbatim>\<open>retries\<close> is a number, and with
  \<^verbatim>\<open>retries = 0.5\<close> against a service that never sends an image, the call makes one
  request, pauses 1500 ms, leaves the loop and throws the error built after the loop.
\<close>

theorem C10_counterexample:
  "(0::real) \<le> 1 / 2
   \<and> fst (snd (generateImage ''p'' [] (1 / 2) (\<lambda>n. Responded []))) = Inl GenerationFailed
   \<and> fst (generateImage ''p'' [] (1 / 2) (\<lambda>n. Responded [])) = [ImageRequest [] ''p'', Wait 1500]
   \<and> extract_image (Responded []) = Inl NoCandidate"
  by (simp add: generateImage_def attempts.simps extract_image_def)

text \<open>
  C10, amended. With a whole \<open>retries \<ge> 0\<close> the call ends inside the loop: it returns
  the image of some attempt within the budget, or it rethrows the error of the attempt
  numbered \<open>retries + 1\<close>, having sent exactly that many requests. The error built after
  the loop is never the outcome.
\<close>

theorem C10_whole_budget_ends_in_loop:
  assumes "0 \<le> retries"
  shows "(\<exists>k evs rest. int k \<le> retries
            \<and> generateImage prompt referenceImages (of_int retries) svc
                = (evs, extract_image (svc k), rest)
            \<and> length (filter is_request evs) = k + 1
            \<and> (isl (extract_image (svc k)) \<longrightarrow> int k = retries))
       \<and> fst (snd (generateImage prompt referenceImages (of_int retries) svc))
           \<noteq> Inl GenerationFailed"
proof -
  from attempts_outcome[OF assms, of "map payload referenceImages" prompt svc]
  obtain k where k: "int k \<le> retries"
    "attempts (map payload referenceImages) prompt (of_int retries) 0 svc
       = (backoff_schedule (map payload referenceImages) prompt 0 k, extract_image (svc k),
          (\<lambda>n. svc (n + Suc k)))"
    "isl (extract_image (svc k)) \<longrightarrow> int k = retries"
    by auto
  have "\<exists>evs rest. int k \<le> retries
            \<and> generateImage prompt referenceImages (of_int retries) svc
                = (evs, extract_image (svc k), rest)
            \<and> length (filter is_request evs) = k + 1
            \<and> (isl (extract_image (svc k)) \<longrightarrow> int k = retries)"
    using k by (simp add: generateImage_def requests_backoff_schedule)
  moreover have "fst (snd (generateImage prompt referenceImages (of_int retries) svc))
      \<noteq> Inl GenerationFailed"
    using k(2) by (simp add: generateImage_def extract_image_not_generic)
  ultimately show ?thesis by blast
qed

text \<open>
  A service that rejects every request with the very message of the trailing error:
  what the caller gets is the rejection, not the error built after the loop.
\<close>

theorem C10_whole_budget_ends_in_loop_witness:
  "(0::int) \<le> 2
   \<and> fst (snd (generateImage ''p'' [] 2 (\<lambda>n. Rejected ''Generation failed.'')))
       \<noteq> Inl GenerationFailed"
proof -
  have budget: "(0::int) \<le> 2" by simp
  from C10_whole_budget_ends_in_loop[OF budget, of "''p''" "[]" "\<lambda>n. Rejected ''Generation failed.''"]
  show ?thesis by simp
qed

section \<open>Pipeline orchestrator: properties\<close>

subsection \<open>Setters, published states and paths\<close>

text \<open>The percentages of the example runs, computed as the doubles give them.\<close>

lemma percent_examples:
  "percent (Suc 0) (Suc 0) = 100"
  "percent (Suc 0) (Suc (Suc 0)) = 50"
  "percent (Suc (Suc 0)) (Suc (Suc 0)) = 100"
  by code_simp+

text \<open>The equations that evaluate a run on the example inputs.\<close>

lemmas eval_defs = handle_def start_def processAudio_def analyzeAudio_def commit_def
  setState_def setError_def setProgress_def setStoryboard_def setAudioFile_def setAudioUrl_def
  setCurrentSceneIndex_def catch_error_def designElements_def generateScenes_def
  callGenerateImage_def generateImage_def with_elements_def refImages_def truthy_def
  extract_image_def barren_def obliging_def noir_def duo_def loaded_def initial_def track_def
  image_of_def elementsLoop.simps scenesLoop.simps attempts.simps
  hero_def villain_def by_timestamp_def sort_compare_def scene_at_def percent_examples

lemma remdups_adj_snoc:
  "xs \<noteq> [] \<Longrightarrow> remdups_adj (xs @ [x]) = (if last xs = x then remdups_adj xs else remdups_adj xs @ [x])"
  by (cases xs rule: rev_cases) (simp_all add: remdups_adj_append_two)

lemma wf_start: "wf (start svc a)"
  by (simp add: wf_def start_def)

lemma path_start: "path (start svc a) = [state a]"
  by (simp add: path_def start_def)

lemma wf_commit: "wf r \<Longrightarrow> wf (commit f r)"
  by (simp add: wf_def commit_def)

lemma app_commit: "app (commit f r) = f (app r)"
  by (simp add: commit_def)

lemma published_commit: "published (commit f r) = published r @ [f (app r)]"
  by (simp add: commit_def)

lemma path_commit:
  "wf r \<Longrightarrow> path (commit f r)
     = (if state (f (app r)) = state (app r) then path r else path r @ [state (f (app r))])"
  by (simp add: wf_def path_def commit_def remdups_adj_snoc last_map)

lemma callGenerateImage_app:
  assumes "callGenerateImage prompt refs r = (r', res)"
  shows "app r' = app r" and "published r' = published r"
  using assms by (auto simp: callGenerateImage_def split: prod.splits)

lemma app_analysing:
  "app (analysing evs r) = (app r)\<lparr>state := ANALYZING, error := None, progress := 5\<rparr>"
  by (simp add: analysing_def setProgress_def setError_def setState_def app_commit)

lemma app_designing:
  "app (designing sb r) = (app r)\<lparr>storyboard := Some sb, state := DESIGNING_ELEMENTS\<rparr>"
  by (simp add: designing_def setStoryboard_def setState_def app_commit)


text \<open>The scenario of C1 seen from the orchestrator: Phase 1 stores the scenes at 0 and 5.\<close>

lemma noir_stored_in_order:
  "map entry_timestamp (stored_scenes (published (handle (obliging noir) loaded ClickStart) ! 4))
     = [Some 0, Some 5]"
  by (simp add: eval_defs stored_scenes_def scenes_of_def entry_timestamp_def)

subsection \<open>Proof rules for the two loops\<close>

text \<open>
  A proof rule for the loop of Phase 2: \<open>I\<close> holds at the head of the loop, \<open>B\<close> between
  the progress update and the store. A request changes neither the state nor what is
  published.
\<close>

lemma elementsLoop_rule:
  assumes run: "elementsLoop pd els i upd r = (r', res)"
    and init: "I i upd r"
    and announce: "\<And>i upd r. I i upd r \<Longrightarrow> i < length els
        \<Longrightarrow> B i upd (setProgress (percent (i + 1) (length els)) r)"
    and call: "\<And>i upd r r2 res2. B i upd r
        \<Longrightarrow> app r2 = app r \<Longrightarrow> published r2 = published r \<Longrightarrow> B i upd r2"
    and store: "\<And>i upd r url. B i upd r \<Longrightarrow> i < length els
        \<Longrightarrow> I (i + 1) (upd @ [(els ! i)\<lparr>el_imageUrl := Some url\<rparr>])
              (setStoryboard (map_option (\<lambda>prev. prev\<lparr>production_design :=
                 Some (with_elements (production_design prev)
                         (upd @ [(els ! i)\<lparr>el_imageUrl := Some url\<rparr>]))\<rparr>)) r)"
  shows "case res of
           Inl err \<Rightarrow> \<exists>k u. k < length els \<and> B k u r'
         | Inr upd' \<Rightarrow> \<exists>k. \<not> k < length els \<and> I k upd' r'"
  using run init
proof (induction "length els - i" arbitrary: i upd r)
  case 0
  then have "\<not> i < length els" by simp
  with "0.prems" show ?case by (auto simp: elementsLoop.simps[of pd els i])
next
  case (Suc n)
  then have inside: "i < length els" by simp
  let ?r1 = "setProgress (percent (i + 1) (length els)) r"
  obtain r2 res2 where c: "callGenerateImage (elementPrompt pd (els ! i)) [] ?r1 = (r2, res2)"
    by (cases "callGenerateImage (elementPrompt pd (els ! i)) [] ?r1")
  have b2: "B i upd r2"
    using announce[OF Suc.prems(2) inside] callGenerateImage_app[OF c] by (rule call)
  show ?case
  proof (cases res2)
    case (Inl err)
    with Suc.prems(1) inside c have "r' = r2" "res = Inl err"
      by (simp_all add: elementsLoop.simps[of pd els i])
    with b2 inside show ?thesis by auto
  next
    case (Inr url)
    let ?upd = "upd @ [(els ! i)\<lparr>el_imageUrl := Some url\<rparr>]"
    let ?r3 = "setStoryboard (map_option (\<lambda>prev. prev\<lparr>production_design :=
                   Some (with_elements (production_design prev) ?upd)\<rparr>)) r2"
    from Suc.prems(1) inside c Inr
    have rec: "elementsLoop pd els (i + 1) ?upd ?r3 = (r', res)"
      by (simp add: elementsLoop.simps[of pd els i])
    have inv: "I (i + 1) ?upd ?r3" using b2 inside by (rule store)
    have "n = length els - (i + 1)" using Suc.hyps(2) by simp
    from Suc.hyps(1)[OF this rec inv] show ?thesis .
  qed
qed

text \<open>A proof rule for the loop of Phase 3\<close>

lemma scenesLoop_rule:
  assumes run: "scenesLoop sb ss refs i upd r = (r', res)"
    and init: "I i upd r"
    and announce: "\<And>i upd r. I i upd r \<Longrightarrow> i < length ss
        \<Longrightarrow> B i upd (setProgress (percent (i + 1) (length ss)) r)"
    and call: "\<And>i upd r r2 res2. B i upd r
        \<Longrightarrow> app r2 = app r \<Longrightarrow> published r2 = published r \<Longrightarrow> B i upd r2"
    and store: "\<And>i upd r url scene. B i upd r \<Longrightarrow> i < length ss \<Longrightarrow> ss ! i = Some scene
        \<Longrightarrow> I (i + 1) (upd @ [scene\<lparr>imageUrl := Some url\<rparr>])
              (setStoryboard (map_option (\<lambda>prev. prev\<lparr>scenes :=
                 Some (SceneArray (map Some (upd @ [scene\<lparr>imageUrl := Some url\<rparr>])
                                   @ drop (i + 1) ss))\<rparr>)) r)"
  shows "case res of
           Inl err \<Rightarrow> \<exists>k u. k < length ss \<and> B k u r'
         | Inr upd' \<Rightarrow> \<exists>k. \<not> k < length ss \<and> I k upd' r'"
  using run init
proof (induction "length ss - i" arbitrary: i upd r)
  case 0
  then have "\<not> i < length ss" by simp
  with "0.prems" show ?case by (auto simp: scenesLoop.simps[of sb ss refs i])
next
  case (Suc n)
  then have inside: "i < length ss" by simp
  let ?r1 = "setProgress (percent (i + 1) (length ss)) r"
  have b1: "B i upd ?r1" using Suc.prems(2) inside by (rule announce)
  show ?case
  proof (cases "production_design sb")
    case None
    with Suc.prems(1) inside have "r' = ?r1" "res = Inl (TypeError ''art_style'')"
      by (simp_all add: scenesLoop.simps[of sb ss refs i])
    with b1 inside show ?thesis by auto
  next
    case pd: (Some pd)
    show ?thesis
    proof (cases "ss ! i")
      case None
      with Suc.prems(1) inside pd have "r' = ?r1" "res = Inl (TypeError ''visual_prompt'')"
        by (simp_all add: scenesLoop.simps[of sb ss refs i])
      with b1 inside show ?thesis by auto
    next
      case (Some scene)
      obtain r2 res2 where c: "callGenerateImage (scenePrompt pd scene) refs ?r1 = (r2, res2)"
        by (cases "callGenerateImage (scenePrompt pd scene) refs ?r1")
      have b2: "B i upd r2"
        using b1 callGenerateImage_app[OF c] by (rule call)
      show ?thesis
      proof (cases res2)
        case (Inl err)
        with Suc.prems(1) inside c pd Some have "r' = r2" "res = Inl err"
          by (simp_all add: scenesLoop.simps[of sb ss refs i])
        with b2 inside show ?thesis by auto
      next
        case (Inr url)
        let ?upd = "upd @ [scene\<lparr>imageUrl := Some url\<rparr>]"
        let ?r3 = "setStoryboard (map_option (\<lambda>prev. prev\<lparr>scenes :=
                       Some (SceneArray (map Some ?upd @ drop (i + 1) ss))\<rparr>)) r2"
        from Suc.prems(1) inside c Inr pd Some
        have rec: "scenesLoop sb ss refs (i + 1) ?upd ?r3 = (r', res)"
          by (simp add: scenesLoop.simps[of sb ss refs i])
        have inv: "I (i + 1) ?upd ?r3" using b2 inside Some by (rule store)
        have "n = length ss - (i + 1)" using Suc.hyps(2) by simp
        from Suc.hyps(1)[OF this rec inv] show ?thesis .
      qed
    qed
  qed
qed

subsection \<open>File selection and reset\<close>

text \<open>
  C9. A file whose declared media type does not start with \<^verbatim>\<open>audio/\<close> is turned down
  by the handler itself: the only state published has the validation message as its
  error and is otherwise the state before, so the pipeline state stays what it was
  (\<^verbatim>\<open>IDLE\<close>, the only state that shows the file input), no file is taken, and no
  request is sent.
\<close>

theorem C9_non_audio_rejected:
  assumes "\<not> prefix ''audio/'' (file_type f)"
  shows "published (handle svc a (ChooseFile (Some f)))
           = [a, a\<lparr>error := Some ''Please upload a valid audio file.''\<rparr>]
       \<and> app (handle svc a (ChooseFile (Some f)))
           = a\<lparr>error := Some ''Please upload a valid audio file.''\<rparr>
       \<and> calls (handle svc a (ChooseFile (Some f))) = []
       \<and> state (app (handle svc a (ChooseFile (Some f)))) = state a
       \<and> audioFile (app (handle svc a (ChooseFile (Some f)))) = audioFile a
       \<and> audioUrl (app (handle svc a (ChooseFile (Some f)))) = audioUrl a
       \<and> error (app (handle svc a (ChooseFile (Some f))))
           = Some ''Please upload a valid audio file.''"
  using assms
  by (simp add: handle_def start_def handleFileUpload_def setError_def commit_def)

text \<open>A picture offered to the freshly mounted component.\<close>

theorem C9_non_audio_rejected_witness:
  "\<not> prefix ''audio/'' (file_type picture)
   \<and> state (app (handle (obliging noir) initial (ChooseFile (Some picture)))) = IDLE
   \<and> audioFile (app (handle (obliging noir) initial (ChooseFile (Some picture)))) = None
   \<and> calls (handle (obliging noir) initial (ChooseFile (Some picture))) = []
   \<and> error (app (handle (obliging noir) initial (ChooseFile (Some picture))))
       = Some ''Please upload a valid audio file.''"
proof -
  have no: "\<not> prefix ''audio/'' (file_type picture)" by (simp add: picture_def)
  from C9_non_audio_rejected[OF no, of "obliging noir" initial] no show ?thesis
    by (simp add: initial_def)
qed

text \<open>
  C8. \<^verbatim>\<open>reset\<close> leaves the state of a freshly mounted component whatever the state
  before: \<^verbatim>\<open>IDLE\<close>, no storyboard, progress 0, no error. Two prior states give the same
  state, and a second \<^verbatim>\<open>reset\<close> changes nothing.
\<close>

theorem C8_reset_idempotent:
  "app (reset r) = initial
   \<and> state (app (reset r)) = IDLE \<and> storyboard (app (reset r)) = None
   \<and> progress (app (reset r)) = 0 \<and> error (app (reset r)) = None
   \<and> app (reset r) = app (reset r')
   \<and> app (reset (reset r)) = app (reset r)"
proof -
  have "app (reset x) = initial" for x
    by (simp add: reset_def initial_def setState_def setAudioFile_def setAudioUrl_def
          setStoryboard_def setCurrentSceneIndex_def setProgress_def setError_def app_commit)
  then show ?thesis by (simp add: initial_def)
qed

subsection \<open>The state machine\<close>

text \<open>The loops leave the pipeline state alone\<close>

lemma steady_commit:
  "steady p r \<Longrightarrow> state (f (app r)) = state (app r) \<Longrightarrow> steady p (commit f r)"
  by (simp add: steady_def wf_commit path_commit)

lemma steady_silent:
  "steady p r \<Longrightarrow> app r2 = app r \<Longrightarrow> published r2 = published r \<Longrightarrow> steady p r2"
  by (simp add: steady_def wf_def path_def)

lemma steady_turn:
  "steady p r \<Longrightarrow> state (app r) \<noteq> s \<Longrightarrow> steady (p @ [s]) (setState s r)"
  by (simp add: steady_def setState_def wf_commit path_commit)

lemma steady_last: "steady p r \<Longrightarrow> state (app r) = last p"
proof -
  assume "steady p r"
  then have "published r \<noteq> []" "last (published r) = app r" "p = remdups_adj (map state (published r))"
    by (auto simp: steady_def wf_def path_def)
  then show ?thesis by (simp add: last_map)
qed

lemma steady_start: "steady [state a] (start svc a)"
  by (simp add: steady_def wf_start path_start)

lemma elementsLoop_steady:
  assumes "elementsLoop pd els i upd r = (r', res)" and "steady p r"
  shows "steady p r'"
proof -
  have "case res of
           Inl err \<Rightarrow> \<exists>k (u::VisualElement list). k < length els \<and> steady p r'
         | Inr upd' \<Rightarrow> \<exists>k. \<not> k < length els \<and> steady p r'"
    using assms
    by (rule elementsLoop_rule[where I = "\<lambda>i upd. steady p" and B = "\<lambda>i upd. steady p"])
       (simp_all add: setProgress_def setStoryboard_def steady_commit steady_silent)
  then show ?thesis by (cases res) auto
qed

lemma scenesLoop_steady:
  assumes "scenesLoop sb ss refs i upd r = (r', res)" and "steady p r"
  shows "steady p r'"
proof -
  have "case res of
           Inl err \<Rightarrow> \<exists>k (u::Scene list). k < length ss \<and> steady p r'
         | Inr upd' \<Rightarrow> \<exists>k. \<not> k < length ss \<and> steady p r'"
    using assms
    by (rule scenesLoop_rule[where I = "\<lambda>i upd. steady p" and B = "\<lambda>i upd. steady p"])
       (simp_all add: setProgress_def setStoryboard_def steady_commit steady_silent)
  then show ?thesis by (cases res) auto
qed

lemma designElements_steady:
  "designElements sb r = (r', res) \<Longrightarrow> steady p r \<Longrightarrow> steady p r'"
  by (auto simp: designElements_def split: option.splits dest: elementsLoop_steady)

lemma generateScenes_steady:
  "generateScenes sb upd r = (r', res) \<Longrightarrow> steady p r \<Longrightarrow> steady p r'"
  by (auto simp: generateScenes_def split: option.splits scenes_value.splits
        dest: scenesLoop_steady)

lemma steady_catch_error:
  assumes "steady p r" and "last p \<noteq> ERROR"
  shows "steady (p @ [ERROR]) (catch_error err r)"
proof -
  let ?r1 = "setError (Some (if message err = [] then ''An error occurred.'' else message err)) r"
  have 1: "steady p ?r1" using assms(1) by (simp add: setError_def steady_commit)
  then have "state (app ?r1) \<noteq> ERROR" using assms(2) by (simp add: steady_last)
  with 1 show ?thesis unfolding catch_error_def by (rule steady_turn)
qed

lemma handleFileUpload_steady: "steady p r \<Longrightarrow> steady p (handleFileUpload file r)"
  by (auto simp: handleFileUpload_def setError_def setAudioUrl_def setAudioFile_def
        steady_commit app_commit split: option.splits)

lemma onTimeUpdate_steady: "steady p r \<Longrightarrow> steady p (onTimeUpdate time r)"
  by (auto simp: onTimeUpdate_def setCurrentSceneIndex_def steady_commit
        split: option.splits scenes_value.splits sum.splits)

lemma reset_steady:
  assumes "steady p r" and "last p \<noteq> IDLE"
  shows "steady (p @ [IDLE]) (reset r)"
proof -
  have "state (app r) \<noteq> IDLE" using assms by (simp add: steady_last)
  with assms(1) have "steady (p @ [IDLE]) (setState IDLE r)" by (rule steady_turn)
  then show ?thesis
    by (simp add: reset_def setError_def setProgress_def setCurrentSceneIndex_def
          setStoryboard_def setAudioUrl_def setAudioFile_def steady_commit app_commit)
qed

text \<open>
  A run either fails in the analysis, or in Phase 2, or in Phase 3, or gets to the end.
\<close>

lemma processAudio_cases [consumes 1, case_names analysis_failed design_failed render_failed ready]:
  assumes "audioFile (app r) = Some f"
  obtains evs err where
      "analyzeAudio (analysis (service r)) (base64 f) (file_type f) = (evs, Inl err)"
      "processAudio r = catch_error err (analysing evs r)"
  | evs sb r3 err where
      "analyzeAudio (analysis (service r)) (base64 f) (file_type f) = (evs, Inr sb)"
      "designElements sb (designing sb (analysing evs r)) = (r3, Inl err)"
      "processAudio r = catch_error err r3"
  | evs sb r3 upd r5 err where
      "analyzeAudio (analysis (service r)) (base64 f) (file_type f) = (evs, Inr sb)"
      "designElements sb (designing sb (analysing evs r)) = (r3, Inr upd)"
      "generateScenes sb upd (setState GENERATING_IMAGES r3) = (r5, Inl err)"
      "processAudio r = catch_error err r5"
  | evs sb r3 upd r5 upds where
      "analyzeAudio (analysis (service r)) (base64 f) (file_type f) = (evs, Inr sb)"
      "designElements sb (designing sb (analysing evs r)) = (r3, Inr upd)"
      "generateScenes sb upd (setState GENERATING_IMAGES r3) = (r5, Inr upds)"
      "processAudio r = setState READY r5"
proof -
  obtain evs res where a: "analyzeAudio (analysis (service r)) (base64 f) (file_type f) = (evs, res)"
    by (cases "analyzeAudio (analysis (service r)) (base64 f) (file_type f)")
  show ?thesis
  proof (cases res)
    case (Inl err)
    with a assms have "processAudio r = catch_error err (analysing evs r)"
      by (simp add: processAudio_def analysing_def)
    with a Inl that(1) show ?thesis by simp
  next
    case sb: (Inr sb)
    obtain r3 res3 where d: "designElements sb (designing sb (analysing evs r)) = (r3, res3)"
      by (cases "designElements sb (designing sb (analysing evs r))")
    show ?thesis
    proof (cases res3)
      case (Inl err)
      with a assms sb d have "processAudio r = catch_error err r3"
        by (simp add: processAudio_def analysing_def designing_def)
      with a sb d Inl that(2) show ?thesis by simp
    next
      case upd: (Inr upd)
      obtain r5 res5 where g: "generateScenes sb upd (setState GENERATING_IMAGES r3) = (r5, res5)"
        by (cases "generateScenes sb upd (setState GENERATING_IMAGES r3)")
      show ?thesis
      proof (cases res5)
        case (Inl err)
        with a assms sb d upd g have "processAudio r = catch_error err r5"
          by (simp add: processAudio_def analysing_def designing_def)
        with a sb d upd g Inl that(3) show ?thesis by simp
      next
        case (Inr upds)
        with a assms sb d upd g have "processAudio r = setState READY r5"
          by (simp add: processAudio_def analysing_def designing_def)
        with a sb d upd g Inr that(4) show ?thesis by simp
      qed
    qed
  qed
qed

lemma steady_analysing:
  assumes "steady p r" and "last p \<noteq> ANALYZING"
  shows "steady (p @ [ANALYZING]) (analysing evs r)"
proof -
  have "state (app r) \<noteq> ANALYZING" using assms by (simp add: steady_last)
  with assms(1) have "steady (p @ [ANALYZING]) (setState ANALYZING r)" by (rule steady_turn)
  then have "steady (p @ [ANALYZING]) (setProgress 5 (setError None (setState ANALYZING r)))"
    by (simp add: setProgress_def setError_def steady_commit app_commit)
  then show ?thesis unfolding analysing_def by (rule steady_silent) simp_all
qed

lemma steady_designing:
  assumes "steady p r" and "last p \<noteq> DESIGNING_ELEMENTS"
  shows "steady (p @ [DESIGNING_ELEMENTS]) (designing sb r)"
proof -
  have "steady p (setStoryboard (\<lambda>_. Some sb) r)"
    using assms(1) by (simp add: setStoryboard_def steady_commit)
  moreover from this assms(2) have "state (app (setStoryboard (\<lambda>_. Some sb) r)) \<noteq> DESIGNING_ELEMENTS"
    by (simp add: steady_last)
  ultimately show ?thesis unfolding designing_def by (rule steady_turn)
qed

text \<open>The path of each of the four, for a run that starts from a single \<^verbatim>\<open>IDLE\<close>.\<close>

lemma processAudio_paths:
  assumes idle: "steady [IDLE] r" and audio: "audioFile (app r) = Some f"
  shows "steady [IDLE, ANALYZING, ERROR] (processAudio r)
           \<and> (\<exists>evs err. analyzeAudio (analysis (service r)) (base64 f) (file_type f) = (evs, Inl err))
       \<or> steady [IDLE, ANALYZING, DESIGNING_ELEMENTS, ERROR] (processAudio r)
           \<and> (\<exists>evs sb r3 err.
                 analyzeAudio (analysis (service r)) (base64 f) (file_type f) = (evs, Inr sb)
                 \<and> designElements sb (designing sb (analysing evs r)) = (r3, Inl err)
                 \<and> processAudio r = catch_error err r3)
       \<or> steady [IDLE, ANALYZING, DESIGNING_ELEMENTS, GENERATING_IMAGES, ERROR] (processAudio r)
       \<or> steady [IDLE, ANALYZING, DESIGNING_ELEMENTS, GENERATING_IMAGES, READY] (processAudio r)"
  using audio
proof (cases rule: processAudio_cases)
  case (analysis_failed evs err)
  have "steady ([IDLE] @ [ANALYZING]) (analysing evs r)"
    using idle by (rule steady_analysing) simp
  then have "steady (([IDLE] @ [ANALYZING]) @ [ERROR]) (catch_error err (analysing evs r))"
    by (rule steady_catch_error) simp
  with analysis_failed show ?thesis by auto
next
  case (design_failed evs sb r3 err)
  have "steady ([IDLE] @ [ANALYZING]) (analysing evs r)"
    using idle by (rule steady_analysing) simp
  then have "steady (([IDLE] @ [ANALYZING]) @ [DESIGNING_ELEMENTS]) (designing sb (analysing evs r))"
    by (rule steady_designing) simp
  with design_failed(2) have "steady (([IDLE] @ [ANALYZING]) @ [DESIGNING_ELEMENTS]) r3"
    by (rule designElements_steady)
  then have "steady ((([IDLE] @ [ANALYZING]) @ [DESIGNING_ELEMENTS]) @ [ERROR]) (catch_error err r3)"
    by (rule steady_catch_error) simp
  with design_failed show ?thesis by auto
next
  case (render_failed evs sb r3 upd r5 err)
  have "steady ([IDLE] @ [ANALYZING]) (analysing evs r)"
    using idle by (rule steady_analysing) simp
  then have "steady (([IDLE] @ [ANALYZING]) @ [DESIGNING_ELEMENTS]) (designing sb (analysing evs r))"
    by (rule steady_designing) simp
  with render_failed(2) have s3: "steady (([IDLE] @ [ANALYZING]) @ [DESIGNING_ELEMENTS]) r3"
    by (rule designElements_steady)
  then have "state (app r3) \<noteq> GENERATING_IMAGES" by (simp add: steady_last)
  with s3 have "steady ((([IDLE] @ [ANALYZING]) @ [DESIGNING_ELEMENTS]) @ [GENERATING_IMAGES])
                  (setState GENERATING_IMAGES r3)"
    by (rule steady_turn)
  with render_failed(3)
  have "steady ((([IDLE] @ [ANALYZING]) @ [DESIGNING_ELEMENTS]) @ [GENERATING_IMAGES]) r5"
    by (rule generateScenes_steady)
  then have "steady (((([IDLE] @ [ANALYZING]) @ [DESIGNING_ELEMENTS]) @ [GENERATING_IMAGES]) @ [ERROR])
               (catch_error err r5)"
    by (rule steady_catch_error) simp
  with render_failed show ?thesis by simp
next
  case (ready evs sb r3 upd r5 upds)
  have "steady ([IDLE] @ [ANALYZING]) (analysing evs r)"
    using idle by (rule steady_analysing) simp
  then have "steady (([IDLE] @ [ANALYZING]) @ [DESIGNING_ELEMENTS]) (designing sb (analysing evs r))"
    by (rule steady_designing) simp
  with ready(2) have s3: "steady (([IDLE] @ [ANALYZING]) @ [DESIGNING_ELEMENTS]) r3"
    by (rule designElements_steady)
  then have "state (app r3) \<noteq> GENERATING_IMAGES" by (simp add: steady_last)
  with s3 have "steady ((([IDLE] @ [ANALYZING]) @ [DESIGNING_ELEMENTS]) @ [GENERATING_IMAGES])
                  (setState GENERATING_IMAGES r3)"
    by (rule steady_turn)
  with ready(3)
  have s5: "steady ((([IDLE] @ [ANALYZING]) @ [DESIGNING_ELEMENTS]) @ [GENERATING_IMAGES]) r5"
    by (rule generateScenes_steady)
  then have "state (app r5) \<noteq> READY" by (simp add: steady_last)
  with s5 have "steady (((([IDLE] @ [ANALYZING]) @ [DESIGNING_ELEMENTS]) @ [GENERATING_IMAGES]) @ [READY])
               (setState READY r5)"
    by (rule steady_turn)
  with ready show ?thesis by simp
qed

text \<open>
  C7. Whatever event the page offers, the pipeline states that follow are a path of the
  state machine. From \<^verbatim>\<open>IDLE\<close>, choosing a file stays in \<^verbatim>\<open>IDLE\<close>, and a run goes
  through \<^verbatim>\<open>ANALYZING\<close>, \<^verbatim>\<open>DESIGNING_ELEMENTS\<close>, \<^verbatim>\<open>GENERATING_IMAGES\<close> in this order
  and ends in \<^verbatim>\<open>READY\<close>, or leaves one of these three for \<^verbatim>\<open>ERROR\<close> and ends there: no
  state is skipped or visited twice. In \<^verbatim>\<open>READY\<close> and in \<^verbatim>\<open>ERROR\<close> the only event that
  changes the state is the reset, which leads to \<^verbatim>\<open>IDLE\<close>. The three working states
  offer no event.
\<close>

theorem C7_state_machine:
  assumes "enabled a ev"
  shows "(state a = IDLE \<and> (\<exists>file. ev = ChooseFile file) \<and> path (handle svc a ev) = [IDLE])
       \<or> (state a = IDLE \<and> ev = ClickStart
            \<and> (path (handle svc a ev) = [IDLE, ANALYZING, ERROR]
               \<or> path (handle svc a ev) = [IDLE, ANALYZING, DESIGNING_ELEMENTS, ERROR]
               \<or> path (handle svc a ev)
                    = [IDLE, ANALYZING, DESIGNING_ELEMENTS, GENERATING_IMAGES, ERROR]
               \<or> path (handle svc a ev)
                    = [IDLE, ANALYZING, DESIGNING_ELEMENTS, GENERATING_IMAGES, READY]))
       \<or> (state a = READY \<and> (\<exists>time. ev = TimeUpdate time) \<and> path (handle svc a ev) = [READY])
       \<or> (state a = READY \<and> ev = ClickReset \<and> path (handle svc a ev) = [READY, IDLE])
       \<or> (state a = ERROR \<and> ev = ClickReset \<and> path (handle svc a ev) = [ERROR, IDLE])"
proof (cases ev)
  case (ChooseFile chosen)
  with assms have "state a = IDLE" by simp
  moreover have "steady [state a] (handle svc a ev)"
    unfolding handle_def ChooseFile using steady_start by (simp add: handleFileUpload_steady)
  ultimately show ?thesis using ChooseFile by (simp add: steady_def)
next
  case ClickStart
  with assms obtain f where a: "state a = IDLE" "audioFile a = Some f" by auto
  have "steady [IDLE] (start svc a)" using steady_start[of a svc] a by simp
  moreover have "audioFile (app (start svc a)) = Some f" using a by (simp add: start_def)
  ultimately show ?thesis
    using processAudio_paths[of "start svc a" f] a ClickStart
    by (auto simp: handle_def steady_def)
next
  case ClickReset
  with assms have a: "state a = ERROR \<or> state a = READY" by auto
  have "steady ([state a] @ [IDLE]) (reset (start svc a))"
    using steady_start a by (intro reset_steady) auto
  with a ClickReset show ?thesis by (auto simp: handle_def steady_def)
next
  case (TimeUpdate time)
  with assms have "state a = READY" by simp
  moreover have "steady [state a] (handle svc a ev)"
    unfolding handle_def TimeUpdate using steady_start by (simp add: onTimeUpdate_steady)
  ultimately show ?thesis using TimeUpdate by (simp add: steady_def)
qed

text \<open>
  A run that is served every image goes all the way to \<^verbatim>\<open>READY\<close>; a run that is served
  none ends in \<^verbatim>\<open>ERROR\<close>, where the reset leads back to \<^verbatim>\<open>IDLE\<close>.
\<close>

theorem C7_state_machine_witness:
  "enabled loaded ClickStart \<and> state loaded = IDLE
   \<and> path (handle (obliging noir) loaded ClickStart)
       = [IDLE, ANALYZING, DESIGNING_ELEMENTS, GENERATING_IMAGES, READY]
   \<and> enabled (app (handle (barren noir) loaded ClickStart)) ClickReset
   \<and> path (handle (barren noir) (app (handle (barren noir) loaded ClickStart)) ClickReset)
       = [ERROR, IDLE]"
proof -
  have en: "enabled loaded ClickStart" by (simp add: loaded_def initial_def)
  have idle: "state loaded = IDLE" by (simp add: loaded_def initial_def)
  have run: "path (handle (obliging noir) loaded ClickStart)
       = [IDLE, ANALYZING, DESIGNING_ELEMENTS, GENERATING_IMAGES, READY]"
    by (simp add: eval_defs path_def)
  have err: "state (app (handle (barren noir) loaded ClickStart)) = ERROR"
    by (simp add: eval_defs)
  then have en2: "enabled (app (handle (barren noir) loaded ClickStart)) ClickReset" by simp
  from C7_state_machine[OF en2, of "barren noir"] err
  have "path (handle (barren noir) (app (handle (barren noir) loaded ClickStart)) ClickReset)
       = [ERROR, IDLE]" by simp
  with C7_state_machine[OF en, of "obliging noir"] en idle run en2 show ?thesis by simp
qed

text \<open>A run can only start where no storyboard is held.\<close>

lemma handleFileUpload_keeps:
  "state (app (handleFileUpload chosen r)) = state (app r)
   \<and> storyboard (app (handleFileUpload chosen r)) = storyboard (app r)"
  by (simp add: handleFileUpload_def setError_def setAudioUrl_def setAudioFile_def app_commit
        split: option.splits)

lemma reachable_idle_no_storyboard:
  "reachable a \<Longrightarrow> state a = IDLE \<Longrightarrow> storyboard a = None"
proof (induction rule: reachable.induct)
  case mounted
  show ?case by simp
next
  case (handled a ev svc)
  show ?case
  proof (cases ev)
    case (ChooseFile chosen)
    with handled.hyps(2) have "state a = IDLE" by simp
    with handled.IH have "storyboard a = None" .
    then show ?thesis
      using handleFileUpload_keeps[of chosen "start svc a"] ChooseFile
      by (simp add: handle_def start_def)
  next
    case ClickStart
    with handled.hyps(2) obtain f where a: "state a = IDLE" "audioFile a = Some f" by auto
    have "steady [IDLE] (start svc a)" using steady_start[of a svc] a by simp
    moreover have "audioFile (app (start svc a)) = Some f" using a by (simp add: start_def)
    ultimately have "state (app (processAudio (start svc a))) \<noteq> IDLE"
      using processAudio_paths[of "start svc a" f] by (auto dest: steady_last)
    with handled.prems ClickStart show ?thesis by (simp add: handle_def)
  next
    case ClickReset
    have "app (reset (start svc a)) = initial"
      by (simp add: reset_def initial_def setState_def setAudioFile_def setAudioUrl_def
            setStoryboard_def setCurrentSceneIndex_def setProgress_def setError_def app_commit)
    with ClickReset show ?thesis by (simp add: handle_def initial_def)
  next
    case (TimeUpdate time)
    with handled.hyps(2) have "state a = READY" by simp
    then have "steady [READY] (start svc a)" using steady_start[of a svc] by simp
    then have "steady [READY] (onTimeUpdate time (start svc a))" by (rule onTimeUpdate_steady)
    then have "state (app (onTimeUpdate time (start svc a))) = READY" by (simp add: steady_last)
    with handled.prems TimeUpdate show ?thesis by (simp add: handle_def)
  qed
qed

subsection \<open>Images are kept\<close>

lemma keeps_images_refl: "keeps_images a a"
  by (simp add: keeps_images_def)

lemma keeps_images_trans: "keeps_images a b \<Longrightarrow> keeps_images b c \<Longrightarrow> keeps_images a c"
  by (simp add: keeps_images_def)

lemma keeps_images_same: "storyboard b = storyboard a \<Longrightarrow> keeps_images a b"
  by (simp add: keeps_images_def element_image_def scene_image_def stored_elements_def
        stored_scenes_def)

lemma keeps_images_first: "storyboard a = None \<Longrightarrow> keeps_images a b"
  by (simp add: keeps_images_def element_image_def scene_image_def stored_elements_def
        stored_scenes_def)

lemma monotone_commit:
  "monotone_run r \<Longrightarrow> keeps_images (app r) (f (app r)) \<Longrightarrow> monotone_run (commit f r)"
  by (auto simp: monotone_run_def published_commit app_commit successively_append_iff wf_def)

lemma monotone_silent:
  "monotone_run r \<Longrightarrow> app r2 = app r \<Longrightarrow> published r2 = published r \<Longrightarrow> monotone_run r2"
  by (simp add: monotone_run_def wf_def)

lemma monotone_start: "monotone_run (start svc a)"
  by (simp add: monotone_run_def wf_start) (simp add: start_def)

lemma monotone_same:
  "monotone_run r \<Longrightarrow> storyboard (f (app r)) = storyboard (app r) \<Longrightarrow> monotone_run (commit f r)"
  by (simp add: monotone_commit keeps_images_same)

lemma within_same:
  "elements_within (a\<lparr>progress := p\<rparr>) upd = elements_within a upd"
  "scenes_within (a\<lparr>progress := p\<rparr>) upds = scenes_within a upds"
  "elements_within (a\<lparr>state := s\<rparr>) upd = elements_within a upd"
  "scenes_within (a\<lparr>state := s\<rparr>) upds = scenes_within a upds"
  by (simp_all add: elements_within_def scenes_within_def element_image_def scene_image_def
        stored_elements_def stored_scenes_def)

text \<open>What the two stores of the loops do to the stored lists\<close>

lemma stored_after_elements:
  fixes a upd
  defines "a' \<equiv> a\<lparr>storyboard := map_option (\<lambda>prev. prev\<lparr>production_design :=
                     Some (with_elements (production_design prev) upd)\<rparr>) (storyboard a)\<rparr>"
  shows "stored_elements a' = (if storyboard a = None then [] else upd)"
    and "stored_scenes a' = stored_scenes a"
  by (auto simp: a'_def stored_elements_def stored_scenes_def elements_of_def scenes_of_def
        with_elements_def split: option.splits)

lemma stored_after_scenes:
  fixes a upd
  defines "a' \<equiv> a\<lparr>storyboard :=
                 map_option (\<lambda>prev. prev\<lparr>scenes := Some (SceneArray upd)\<rparr>) (storyboard a)\<rparr>"
  shows "stored_scenes a' = (if storyboard a = None then [] else upd)"
    and "stored_elements a' = stored_elements a"
  by (auto simp: a'_def stored_elements_def stored_scenes_def elements_of_def scenes_of_def
        split: option.splits)

lemma store_element_keeps:
  fixes a upd x
  defines "a' \<equiv> a\<lparr>storyboard := map_option (\<lambda>prev. prev\<lparr>production_design :=
                     Some (with_elements (production_design prev) (upd @ [x]))\<rparr>) (storyboard a)\<rparr>"
  assumes "elements_within a upd"
  shows "keeps_images a a'" and "elements_within a' (upd @ [x])"
proof -
  have e: "stored_elements a' = (if storyboard a = None then [] else upd @ [x])"
    and s: "stored_scenes a' = stored_scenes a"
    unfolding a'_def by (rule stored_after_elements)+
  have none: "storyboard a = None \<Longrightarrow> element_image a k = None" for k
    by (simp add: element_image_def stored_elements_def)
  show "keeps_images a a'"
    unfolding keeps_images_def
  proof (intro conjI allI impI)
    fix k u assume h: "element_image a k = Some u"
    with none have "storyboard a \<noteq> None" by fastforce
    moreover from h assms(2) have "k < length upd" "el_imageUrl (upd ! k) = Some u"
      by (auto simp: elements_within_def)
    ultimately show "element_image a' k = Some u"
      by (simp add: element_image_def e nth_append)
  next
    fix k u assume "scene_image a k = Some u"
    then show "scene_image a' k = Some u" by (simp add: scene_image_def s split: if_splits)
  qed
  show "elements_within a' (upd @ [x])"
    by (auto simp: elements_within_def element_image_def e split: if_splits)
qed

lemma store_scene_keeps:
  fixes a upd x rest
  defines "a' \<equiv> a\<lparr>storyboard := map_option (\<lambda>prev. prev\<lparr>scenes :=
                     Some (SceneArray (map Some (upd @ [x]) @ rest))\<rparr>) (storyboard a)\<rparr>"
  assumes "scenes_within a upd" and "list_all (\<lambda>e. entry_image e = None) rest"
  shows "keeps_images a a'" and "scenes_within a' (upd @ [x])"
proof -
  let ?all = "map Some (upd @ [x]) @ rest"
  have s: "stored_scenes a' = (if storyboard a = None then [] else ?all)"
    and e: "stored_elements a' = stored_elements a"
    unfolding a'_def by (rule stored_after_scenes)+
  have built: "entry_image (?all ! k) = imageUrl ((upd @ [x]) ! k)" if "k < length (upd @ [x])" for k
  proof -
    from that have "?all ! k = map Some (upd @ [x]) ! k"
      by (intro nth_append_left) simp
    also from that have "\<dots> = Some ((upd @ [x]) ! k)" by (rule nth_map)
    finally show ?thesis by (simp add: entry_image_def)
  qed
  have none: "storyboard a = None \<Longrightarrow> scene_image a k = None" for k
    by (simp add: scene_image_def stored_scenes_def)
  show "keeps_images a a'"
    unfolding keeps_images_def
  proof (intro conjI allI impI)
    fix k u assume h: "scene_image a k = Some u"
    with none have sb: "storyboard a \<noteq> None" by fastforce
    from h assms(2) have k: "k < length upd" and u: "imageUrl (upd ! k) = Some u"
      by (auto simp: scenes_within_def)
    from k have "k < length (upd @ [x])" by simp
    from built[OF this] k u have "entry_image (?all ! k) = Some u" by (simp add: nth_append)
    with sb k show "scene_image a' k = Some u"
      by (simp add: scene_image_def s)
  next
    fix k u assume "element_image a k = Some u"
    then show "element_image a' k = Some u" by (simp add: element_image_def e split: if_splits)
  qed
  show "scenes_within a' (upd @ [x])"
  proof (unfold scenes_within_def, intro allI impI)
    fix k u assume h: "scene_image a' k = Some u"
    then have k: "k < length ?all" and v: "entry_image (?all ! k) = Some u"
      by (auto simp: scene_image_def s split: if_splits)
    have inside: "k < length (upd @ [x])"
    proof (rule ccontr)
      assume out: "\<not> k < length (upd @ [x])"
      then have "?all ! k = rest ! (k - length (upd @ [x]))"
        by (simp add: nth_append)
      moreover from out k have "k - length (upd @ [x]) < length rest" by auto
      ultimately show False using assms(3) v by (auto simp: list_all_length)
    qed
    from built[OF this] v have "imageUrl ((upd @ [x]) ! k) = Some u" by simp
    with inside show "k < length (upd @ [x]) \<and> imageUrl ((upd @ [x]) ! k) = Some u" by simp
  qed
qed

lemma elementsLoop_monotone:
  assumes "elementsLoop pd els i upd r = (r', res)"
    and "monotone_run r \<and> elements_within (app r) upd \<and> scenes_within (app r) []"
  shows "monotone_run r' \<and> scenes_within (app r') []"
proof -
  let ?I = "\<lambda>(i::nat) upd r. monotone_run r \<and> elements_within (app r) upd \<and> scenes_within (app r) []"
  have "case res of
           Inl err \<Rightarrow> \<exists>k (u::VisualElement list). k < length els \<and> ?I k u r'
         | Inr upd' \<Rightarrow> \<exists>k. \<not> k < length els \<and> ?I k upd' r'"
    using assms
  proof (rule elementsLoop_rule[where I = ?I and B = ?I])
    fix i upd r
    assume "?I i upd r"
    then show "?I i upd (setProgress (percent (i + 1) (length els)) r)"
      by (simp add: setProgress_def monotone_same app_commit within_same)
  next
    fix i upd r and r2 :: Run
    assume "?I i upd r" "app r2 = app r" "published r2 = published r"
    then show "?I i upd r2" by (auto intro: monotone_silent)
  next
    fix i upd r url
    let ?x = "(els ! i)\<lparr>el_imageUrl := Some url\<rparr>"
    let ?f = "\<lambda>a. a\<lparr>storyboard := map_option (\<lambda>prev. prev\<lparr>production_design :=
                 Some (with_elements (production_design prev) (upd @ [?x]))\<rparr>) (storyboard a)\<rparr>"
    assume inv: "?I i upd r"
    then have m: "monotone_run r" and ew: "elements_within (app r) upd"
      and sw: "scenes_within (app r) []" by simp_all
    have k: "keeps_images (app r) (?f (app r))"
      using ew by (rule store_element_keeps(1))
    have w: "elements_within (?f (app r)) (upd @ [?x])"
      using ew by (rule store_element_keeps(2))
    have "stored_scenes (?f (app r)) = stored_scenes (app r)" by (rule stored_after_elements(2))
    with sw have sw': "scenes_within (?f (app r)) []"
      by (simp only: scenes_within_def scene_image_def)
    have c: "setStoryboard (map_option (\<lambda>prev. prev\<lparr>production_design :=
                 Some (with_elements (production_design prev) (upd @ [?x]))\<rparr>)) r = commit ?f r"
      by (simp only: setStoryboard_def)
    show "?I (i + 1) (upd @ [?x]) (setStoryboard (map_option (\<lambda>prev. prev\<lparr>production_design :=
                 Some (with_elements (production_design prev) (upd @ [?x]))\<rparr>)) r)"
      unfolding c app_commit using monotone_commit[of r ?f, OF m k] w sw' by (intro conjI)
  qed
  then show ?thesis by (cases res) auto
qed

lemma scenesLoop_monotone:
  assumes "scenesLoop sb ss refs i upd r = (r', res)"
    and "monotone_run r \<and> scenes_within (app r) upd"
    and free: "list_all (\<lambda>e. entry_image e = None) ss"
  shows "monotone_run r'"
proof -
  let ?I = "\<lambda>(i::nat) upd r. monotone_run r \<and> scenes_within (app r) upd"
  have "case res of
           Inl err \<Rightarrow> \<exists>k (u::Scene list). k < length ss \<and> ?I k u r'
         | Inr upd' \<Rightarrow> \<exists>k. \<not> k < length ss \<and> ?I k upd' r'"
    using assms(1,2)
  proof (rule scenesLoop_rule[where I = ?I and B = ?I])
    fix i upd r
    assume "?I i upd r"
    then show "?I i upd (setProgress (percent (i + 1) (length ss)) r)"
      by (simp add: setProgress_def monotone_same app_commit within_same)
  next
    fix i upd r and r2 :: Run
    assume "?I i upd r" "app r2 = app r" "published r2 = published r"
    then show "?I i upd r2" by (auto intro: monotone_silent)
  next
    fix i upd r url and scene :: Scene
    let ?x = "scene\<lparr>imageUrl := Some url\<rparr>"
    let ?f = "\<lambda>a. a\<lparr>storyboard := map_option (\<lambda>prev. prev\<lparr>scenes :=
                 Some (SceneArray (map Some (upd @ [?x]) @ drop (i + 1) ss))\<rparr>) (storyboard a)\<rparr>"
    assume inv: "?I i upd r"
    then have m: "monotone_run r" and sw: "scenes_within (app r) upd" by simp_all
    have rest: "list_all (\<lambda>e. entry_image e = None) (drop (i + 1) ss)"
      using free by (auto simp: list_all_iff dest: in_set_dropD)
    have k: "keeps_images (app r) (?f (app r))"
      using sw rest by (rule store_scene_keeps(1))
    have w: "scenes_within (?f (app r)) (upd @ [?x])"
      using sw rest by (rule store_scene_keeps(2))
    have c: "setStoryboard (map_option (\<lambda>prev. prev\<lparr>scenes :=
                 Some (SceneArray (map Some (upd @ [?x]) @ drop (i + 1) ss))\<rparr>)) r = commit ?f r"
      by (simp only: setStoryboard_def)
    show "?I (i + 1) (upd @ [?x]) (setStoryboard (map_option (\<lambda>prev. prev\<lparr>scenes :=
                 Some (SceneArray (map Some (upd @ [?x]) @ drop (i + 1) ss))\<rparr>)) r)"
      unfolding c app_commit using monotone_commit[of r ?f, OF m k] w by (intro conjI)
  qed
  then show ?thesis by (cases res) auto
qed

lemma designElements_monotone:
  assumes "designElements sb r = (r', res)"
    and "monotone_run r" "elements_within (app r) []" "scenes_within (app r) []"
  shows "monotone_run r' \<and> scenes_within (app r') []"
  using assms
  by (auto simp: designElements_def split: option.splits dest: elementsLoop_monotone)

lemma generateScenes_monotone:
  assumes "generateScenes sb upd r = (r', res)"
    and "monotone_run r" "scenes_within (app r) []"
    and "list_all (\<lambda>e. entry_image e = None) (scenes_of sb)"
  shows "monotone_run r'"
  using assms
  by (auto simp: generateScenes_def scenes_of_def split: option.splits scenes_value.splits
        dest: scenesLoop_monotone)

lemma catch_error_monotone: "monotone_run r \<Longrightarrow> monotone_run (catch_error err r)"
  by (simp add: catch_error_def setState_def setError_def monotone_same app_commit)

lemma analyzeAudio_image_free:
  assumes "analyzeAudio reply audioBase64 mimeType = (evs, Inr sb)"
    and "\<forall>result. reply = Parsed result \<longrightarrow> image_free result"
  shows "image_free sb"
proof -
  from assms(1) obtain result where r: "reply = Parsed result"
    by (cases reply) (auto simp: analyzeAudio_def)
  with assms(2) have f: "image_free result" by simp
  show ?thesis
  proof (cases "scenes result")
    case None
    with assms(1) r f show ?thesis by (simp add: analyzeAudio_def)
  next
    case (Some v)
    show ?thesis
    proof (cases v)
      case (NotArray b)
      with assms(1) r Some have "sb = result" by (simp add: analyzeAudio_def split: if_splits)
      with f show ?thesis by simp
    next
      case (SceneArray received)
      with assms(1) r Some obtain ss where sorted: "array_sort by_timestamp received = Inr ss"
        and sb: "sb = result\<lparr>scenes := Some (SceneArray ss)\<rparr>"
        by (auto simp: analyzeAudio_def split: sum.splits)
      from sorted have "mset ss = mset received" by (rule array_sort_mset)
      then have "set ss = set received" by (rule mset_eq_setD)
      with f Some SceneArray sb show ?thesis
        by (simp add: image_free_def elements_of_def scenes_of_def list_all_iff)
    qed
  qed
qed

lemma image_free_within:
  assumes "storyboard a = Some sb" and "image_free sb"
  shows "elements_within a []" and "scenes_within a []"
  using assms
  by (auto simp: elements_within_def scenes_within_def element_image_def scene_image_def
        stored_elements_def stored_scenes_def image_free_def list_all_length)

lemma monotone_analysing: "monotone_run r \<Longrightarrow> monotone_run (analysing evs r)"
proof -
  assume "monotone_run r"
  then have "monotone_run (setProgress 5 (setError None (setState ANALYZING r)))"
    by (simp add: setProgress_def setError_def setState_def monotone_same app_commit)
  then show ?thesis unfolding analysing_def by (rule monotone_silent) simp_all
qed

lemma monotone_designing:
  "monotone_run r \<Longrightarrow> storyboard (app r) = None \<Longrightarrow> monotone_run (designing sb r)"
  by (simp add: designing_def setStoryboard_def setState_def monotone_commit monotone_same
        keeps_images_first app_commit)

text \<open>Phases 1 and 2 of a run that holds no storyboard and is answered without images.\<close>

lemma design_monotone:
  assumes m: "monotone_run r" and none: "storyboard (app r) = None"
    and free: "\<forall>result. reply = Parsed result \<longrightarrow> image_free result"
    and an: "analyzeAudio reply audioBase64 mimeType = (evs, Inr sb)"
    and de: "designElements sb (designing sb (analysing evs r)) = (r3, res)"
  shows "monotone_run r3 \<and> scenes_within (app r3) [] \<and> image_free sb"
proof -
  have sbf: "image_free sb" using an free by (rule analyzeAudio_image_free)
  have "monotone_run (analysing evs r)" using m by (rule monotone_analysing)
  moreover have "storyboard (app (analysing evs r)) = None" using none by (simp add: app_analysing)
  ultimately have m2: "monotone_run (designing sb (analysing evs r))" by (rule monotone_designing)
  have "storyboard (app (designing sb (analysing evs r))) = Some sb" by (simp add: app_designing)
  from designElements_monotone[OF de m2 image_free_within[OF this sbf]] sbf
  show ?thesis by simp
qed

lemma processAudio_monotone:
  assumes m: "monotone_run r" and none: "storyboard (app r) = None"
    and free: "\<forall>result. analysis (service r) = Parsed result \<longrightarrow> image_free result"
  shows "monotone_run (processAudio r)"
proof (cases "audioFile (app r)")
  case None
  with m show ?thesis by (simp add: processAudio_def)
next
  case (Some f)
  then show ?thesis
  proof (cases rule: processAudio_cases)
    case (analysis_failed evs err)
    with m show ?thesis by (simp add: monotone_analysing catch_error_monotone)
  next
    case (design_failed evs sb r3 err)
    from design_monotone[OF m none free design_failed(1,2)] design_failed(3)
    show ?thesis by (simp add: catch_error_monotone)
  next
    case (render_failed evs sb r3 upd r5 err)
    from design_monotone[OF m none free render_failed(1,2)]
    have m3: "monotone_run r3" and w3: "scenes_within (app r3) []" and sbf: "image_free sb"
      by simp_all
    have "monotone_run (setState GENERATING_IMAGES r3)"
      "scenes_within (app (setState GENERATING_IMAGES r3)) []"
      using m3 w3 by (simp_all add: setState_def monotone_same app_commit within_same)
    with render_failed(3) sbf have "monotone_run r5"
      by (auto simp: image_free_def intro: generateScenes_monotone)
    with render_failed(4) show ?thesis by (simp add: catch_error_monotone)
  next
    case (ready evs sb r3 upd r5 upds)
    from design_monotone[OF m none free ready(1,2)]
    have m3: "monotone_run r3" and w3: "scenes_within (app r3) []" and sbf: "image_free sb"
      by simp_all
    have "monotone_run (setState GENERATING_IMAGES r3)"
      "scenes_within (app (setState GENERATING_IMAGES r3)) []"
      using m3 w3 by (simp_all add: setState_def monotone_same app_commit within_same)
    with ready(3) sbf have "monotone_run r5"
      by (auto simp: image_free_def intro: generateScenes_monotone)
    with ready(4) show ?thesis by (simp add: setState_def monotone_same app_commit)
  qed
qed

text \<open>
  C6. In a run that starts with no storyboard held and whose analysis response carries
  no image, an image that a recurring element or a scene has in a published state is
  the image of the entry at the same position in every state published later.
\<close>

theorem C6_snapshot_monotonicity:
  assumes "storyboard a = None"
    and "\<forall>result. analysis svc = Parsed result \<longrightarrow> image_free result"
  shows "\<forall>p q k u. p < q \<and> q < length (published (handle svc a ClickStart)) \<longrightarrow>
           (element_image (published (handle svc a ClickStart) ! p) k = Some u
              \<longrightarrow> element_image (published (handle svc a ClickStart) ! q) k = Some u)
         \<and> (scene_image (published (handle svc a ClickStart) ! p) k = Some u
              \<longrightarrow> scene_image (published (handle svc a ClickStart) ! q) k = Some u)"
proof -
  let ?snaps = "published (handle svc a ClickStart)"
  have "monotone_run (processAudio (start svc a))"
    using assms by (intro processAudio_monotone monotone_start) (simp_all add: start_def)
  then have "successively keeps_images ?snaps"
    by (simp add: monotone_run_def handle_def)
  moreover have "transp keeps_images"
    by (rule transpI) (rule keeps_images_trans)
  ultimately have "sorted_wrt keeps_images ?snaps"
    by (simp add: successively_conv_sorted_wrt)
  then have "\<forall>p q. p < q \<and> q < length ?snaps \<longrightarrow> keeps_images (?snaps ! p) (?snaps ! q)"
    by (simp add: sorted_wrt_iff_nth_less)
  then show ?thesis unfolding keeps_images_def by blast
qed

text \<open>
  In the run on the scenario's response, the image the element has in the state
  published at its store is the one it has in the last state.
\<close>

theorem C6_snapshot_monotonicity_witness:
  "storyboard loaded = None \<and> image_free noir
   \<and> (7::nat) < 13 \<and> 13 < length (published (handle (obliging noir) loaded ClickStart))
   \<and> element_image (published (handle (obliging noir) loaded ClickStart) ! 7) 0
       = Some ''data:image/png;base64,AAAA''
   \<and> element_image (published (handle (obliging noir) loaded ClickStart) ! 13) 0
       = Some ''data:image/png;base64,AAAA''"
proof -
  have none: "storyboard loaded = None" by (simp add: loaded_def initial_def)
  have noir: "image_free noir"
    by (simp add: image_free_def noir_def elements_of_def scenes_of_def hero_def scene_at_def
          entry_image_def)
  then have free: "\<forall>result. analysis (obliging noir) = Parsed result \<longrightarrow> image_free result"
    by (simp add: obliging_def)
  have len: "length (published (handle (obliging noir) loaded ClickStart)) = 14"
    by (simp add: eval_defs)
  have at: "element_image (published (handle (obliging noir) loaded ClickStart) ! 7) 0
       = Some ''data:image/png;base64,AAAA''"
    by (simp add: eval_defs element_image_def stored_elements_def elements_of_def)
  have "(7::nat) < 13 \<and> 13 < length (published (handle (obliging noir) loaded ClickStart))"
    by (simp add: len)
  with C6_snapshot_monotonicity[OF none free] at
  have "element_image (published (handle (obliging noir) loaded ClickStart) ! 13) 0
       = Some ''data:image/png;base64,AAAA''"
    by blast
  with none noir len at show ?thesis by simp
qed

subsection \<open>Progress in Phase 2\<close>

lemma images_stored_same [simp]:
  "images_stored (a\<lparr>progress := p\<rparr>) = images_stored a"
  "images_stored (a\<lparr>state := s\<rparr>) = images_stored a"
  "images_stored (a\<lparr>error := e\<rparr>) = images_stored a"
  by (simp_all add: images_stored_def stored_elements_def)



text \<open>
  Where the doubles part with the exact quotient: 23 of 40 is 57.5 exactly, and
  \<^verbatim>\<open>(23 / 40) * 100\<close> is the double 57.49999999999999, which rounds to 57.
\<close>

lemma percent_23_of_40: "percent 23 40 = 57"
  by code_simp




subsection \<open>Pending elements in Phase 2\<close>

text \<open>
  C4 does not hold of the code. Two recurring elements, every request answered with an
  image: the storyboard stored by Phase 1 has both elements, and the two states
  published between the first image and the second hold the first element only. The
  second element is back once its own image is there. Phase 3 keeps the pending scenes.
\<close>

theorem C4_pending_elements_dropped:
  "map (\<lambda>a. (state a, map name (stored_elements a), length (stored_scenes a)))
       (published (handle (obliging duo) loaded ClickStart))
     = [(IDLE, [], 0), (ANALYZING, [], 0), (ANALYZING, [], 0), (ANALYZING, [], 0),
        (ANALYZING, [''Hero'', ''Villain''], 1),
        (DESIGNING_ELEMENTS, [''Hero'', ''Villain''], 1),
        (DESIGNING_ELEMENTS, [''Hero'', ''Villain''], 1),
        (DESIGNING_ELEMENTS, [''Hero''], 1),
        (DESIGNING_ELEMENTS, [''Hero''], 1),
        (DESIGNING_ELEMENTS, [''Hero'', ''Villain''], 1),
        (GENERATING_IMAGES, [''Hero'', ''Villain''], 1),
        (GENERATING_IMAGES, [''Hero'', ''Villain''], 1),
        (GENERATING_IMAGES, [''Hero'', ''Villain''], 1),
        (READY, [''Hero'', ''Villain''], 1)]"
  by (simp add: eval_defs stored_elements_def stored_scenes_def elements_of_def scenes_of_def)

end
